theory Spec2Isabelle
  imports Complex_Main "HOL-Library.Word"
begin

unbundle bit_operations_syntax

section \<open>JavaScript values used by the lookup engine\<close>

text \<open>
  A JavaScript string is a sequence of UTF-16 code units; \<open>charCodeAt\<close> returns one
  of them, a number from 0 to 65535. A string literal of the source is ASCII, so it is
  written as an Isabelle string and converted by \<open>js\<close>.
\<close>

type_synonym jsstring = "16 word list"

definition js :: "string \<Rightarrow> jsstring" where
  "js s = map (\<lambda>c. word_of_nat (of_char c)) s"

text \<open>
  The numbers the hash works on are integers, so they are modelled as \<open>int\<close>, with the
  conversions of the bitwise operators written out: \<open>^\<close> converts both operands with
  ToInt32 and yields a signed 32-bit value, \<open>Math.imul\<close> multiplies the ToUint32 values
  modulo \<open>2^32\<close> and reads the product as signed, and \<open>>>> 0\<close> is ToUint32.
\<close>

definition ToInt32 :: "int \<Rightarrow> int" where
  "ToInt32 x = (let m = x mod 2 ^ 32 in if m \<ge> 2 ^ 31 then m - 2 ^ 32 else m)"

definition ToUint32 :: "int \<Rightarrow> int" where
  "ToUint32 x = x mod 2 ^ 32"

definition js_xor :: "int \<Rightarrow> int \<Rightarrow> int" where
  "js_xor a b = ToInt32 a XOR ToInt32 b"

definition Math_imul :: "int \<Rightarrow> int \<Rightarrow> int" where
  "Math_imul a b =
     (let product = (ToUint32 a * ToUint32 b) mod 2 ^ 32
      in if product \<ge> 2 ^ 31 then product - 2 ^ 32 else product)"

section \<open>The hash function\<close>

text \<open>
  \<open>fnv1a_32\<close> of \<open>src/app.js\<close>: the \<open>for\<close> loop over the indices of \<open>str\<close> is the
  recursion of \<open>fnv_loop\<close> over the code units, \<open>hval\<close> being the loop variable.
\<close>

fun fnv_loop :: "int \<Rightarrow> jsstring \<Rightarrow> int" where
  "fnv_loop hval [] = hval"
| "fnv_loop hval (c # cs) = fnv_loop (Math_imul (js_xor hval (uint c)) 0x01000193) cs"

definition fnv1a_32 :: "jsstring \<Rightarrow> int" where
  "fnv1a_32 str = ToUint32 (fnv_loop 0x811c9dc5 str)"

text \<open>
  The reference the specification describes, on natural numbers: start from
  \<open>0x811c9dc5\<close>; for each character code, XOR it in, then multiply by \<open>0x01000193\<close>
  modulo \<open>2^32\<close>.
\<close>

fun fnv1a_ref_from :: "nat \<Rightarrow> nat list \<Rightarrow> nat" where
  "fnv1a_ref_from h [] = h"
| "fnv1a_ref_from h (b # bs) = fnv1a_ref_from (((h XOR b) * 0x01000193) mod 2 ^ 32) bs"

definition fnv1a_ref :: "nat list \<Rightarrow> nat" where
  "fnv1a_ref s = fnv1a_ref_from 0x811c9dc5 s"

section \<open>String operations of the JavaScript library\<close>

text \<open>
  The code units \<open>trim\<close> strips: the WhiteSpace and LineTerminator productions of
  ECMAScript (tab, line feed, vertical tab, form feed, carriage return, space, no-break
  space, the Unicode space separators, line and paragraph separator, byte order mark).
\<close>

definition isWhiteSpace :: "16 word \<Rightarrow> bool" where
  "isWhiteSpace c \<longleftrightarrow>
     c \<in> set [0x0009, 0x000A, 0x000B, 0x000C, 0x000D, 0x0020, 0x00A0, 0x1680,
               0x2028, 0x2029, 0x202F, 0x205F, 0x3000, 0xFEFF]
     \<or> (0x2000 \<le> c \<and> c \<le> 0x200A)"

definition String_trimStart :: "jsstring \<Rightarrow> jsstring" where
  "String_trimStart s = dropWhile isWhiteSpace s"

definition String_trimEnd :: "jsstring \<Rightarrow> jsstring" where
  "String_trimEnd s = rev (dropWhile isWhiteSpace (rev s))"

definition String_trim :: "jsstring \<Rightarrow> jsstring" where
  "String_trim s = String_trimEnd (String_trimStart s)"

text \<open>
  \<open>s.split(sep)\<close> for a one-character separator: the pieces between the separators,
  so a string with \<open>n\<close> separators gives \<open>n + 1\<close> pieces and the empty string gives
  one empty piece. The empty-list branch of the \<open>case\<close> is never taken.
\<close>

fun String_split :: "jsstring \<Rightarrow> 16 word \<Rightarrow> jsstring list" where
  "String_split [] sep = [[]]"
| "String_split (c # cs) sep =
     (if c = sep then [] # String_split cs sep
      else (case String_split cs sep of [] \<Rightarrow> [[c]] | l # ls \<Rightarrow> (c # l) # ls))"

text \<open>\<open>s.indexOf(ch)\<close>: the index of the first occurrence, or \<open>-1\<close>.\<close>

fun indexOf_from :: "jsstring \<Rightarrow> 16 word \<Rightarrow> int \<Rightarrow> int" where
  "indexOf_from [] ch i = - 1"
| "indexOf_from (c # cs) ch i = (if c = ch then i else indexOf_from cs ch (i + 1))"

definition String_indexOf :: "jsstring \<Rightarrow> 16 word \<Rightarrow> int" where
  "String_indexOf s ch = indexOf_from s ch 0"

text \<open>
  \<open>s.substring(start, end)\<close> clamps both indices to \<open>[0, length]\<close> and swaps them when
  they are out of order; with one argument the end is the length.
\<close>

definition String_substring :: "jsstring \<Rightarrow> int \<Rightarrow> int \<Rightarrow> jsstring" where
  "String_substring s start stop =
     (let len = int (length s);
          finalStart = min (max start 0) len;
          finalEnd = min (max stop 0) len;
          lo = min finalStart finalEnd;
          hi = max finalStart finalEnd
      in take (nat (hi - lo)) (drop (nat lo) s))"

definition String_substring_from :: "jsstring \<Rightarrow> int \<Rightarrow> jsstring" where
  "String_substring_from s start = String_substring s start (int (length s))"

definition String_padStart :: "jsstring \<Rightarrow> nat \<Rightarrow> 16 word \<Rightarrow> jsstring" where
  "String_padStart s targetLength fill =
     (if targetLength \<le> length s then s else replicate (targetLength - length s) fill @ s)"

text \<open>
  Case conversion. For an ASCII code unit the Unicode default case conversion is the
  ASCII one, whatever surrounds it. The case tables for all other code units belong to
  the JavaScript engine, not to this program, so they are a parameter \<open>U\<close>: what a
  code unit outside ASCII contributes to the converted string, given the code units
  before and after it (which covers surrogate pairs and context-sensitive mappings).
  Nothing is assumed about \<open>U\<close> unless a theorem says so.
\<close>

record unicode =
  lower_other :: "jsstring \<Rightarrow> 16 word \<Rightarrow> jsstring \<Rightarrow> jsstring"
  upper_other :: "jsstring \<Rightarrow> 16 word \<Rightarrow> jsstring \<Rightarrow> jsstring"

definition ascii_lower :: "16 word \<Rightarrow> 16 word" where
  "ascii_lower c = (if 0x41 \<le> c \<and> c \<le> 0x5A then c + 0x20 else c)"

definition ascii_upper :: "16 word \<Rightarrow> 16 word" where
  "ascii_upper c = (if 0x61 \<le> c \<and> c \<le> 0x7A then c - 0x20 else c)"

fun lower_units :: "unicode \<Rightarrow> jsstring \<Rightarrow> jsstring \<Rightarrow> jsstring" where
  "lower_units U before [] = []"
| "lower_units U before (c # cs) =
     (if c < 0x80 then [ascii_lower c] else lower_other U before c cs)
       @ lower_units U (before @ [c]) cs"

definition String_toLowerCase :: "unicode \<Rightarrow> jsstring \<Rightarrow> jsstring" where
  "String_toLowerCase U s = lower_units U [] s"

definition toUppercase_unit :: "unicode \<Rightarrow> 16 word \<Rightarrow> jsstring" where
  "toUppercase_unit U ch = (if ch < 0x80 then [ascii_upper ch] else upper_other U [] ch [])"

text \<open>A Unicode table in which no code unit outside ASCII has a case mapping.\<close>

definition plain_unicode :: unicode where
  "plain_unicode =
     \<lparr> lower_other = (\<lambda>before c after. [c]), upper_other = (\<lambda>before c after. [c]) \<rparr>"

section \<open>The regular expression of the key validator\<close>

text \<open>
  \<open>/^[0-9a-f]{32}$/i\<close>, without the \<open>u\<close> flag. \<open>Canonicalize\<close> is the ECMAScript
  operation of that name for a pattern that ignores case: a code unit is replaced by its
  upper-case form when that form is a single code unit, except that a code unit outside
  ASCII is never mapped into ASCII. A character class matches a code unit when some
  member of the class has the same canonical form.
\<close>

definition Canonicalize :: "unicode \<Rightarrow> bool \<Rightarrow> 16 word \<Rightarrow> 16 word" where
  "Canonicalize U ignoreCase ch =
     (if \<not> ignoreCase then ch
      else (case toUppercase_unit U ch of
              [cu] \<Rightarrow> if ch \<ge> 128 \<and> cu < 128 then ch else cu
            | _ \<Rightarrow> ch))"

definition class_members :: "(16 word \<times> 16 word) list \<Rightarrow> 16 word list" where
  "class_members ranges =
     concat (map (\<lambda>(lo, hi). map word_of_nat [unat lo ..< Suc (unat hi)]) ranges)"

definition CharacterSetMatcher ::
  "unicode \<Rightarrow> bool \<Rightarrow> (16 word \<times> 16 word) list \<Rightarrow> 16 word \<Rightarrow> bool" where
  "CharacterSetMatcher U ignoreCase ranges ch =
     list_ex (\<lambda>a. Canonicalize U ignoreCase a = Canonicalize U ignoreCase ch)
       (class_members ranges)"

text \<open>
  \<open>match_times p n s\<close> matches exactly \<open>n\<close> code units satisfying \<open>p\<close> at the start of
  \<open>s\<close> and returns the rest of the input, or \<open>None\<close> when the match fails.
\<close>

fun match_times :: "(16 word \<Rightarrow> bool) \<Rightarrow> nat \<Rightarrow> jsstring \<Rightarrow> jsstring option" where
  "match_times p 0 s = Some s"
| "match_times p (Suc n) [] = None"
| "match_times p (Suc n) (c # cs) = (if p c then match_times p n cs else None)"

definition hexPattern_ranges :: "(16 word \<times> 16 word) list" where
  "hexPattern_ranges = [(0x30, 0x39), (0x61, 0x66)]"

section \<open>Key validation and normalisation\<close>

text \<open>
  \<open>validateKey\<close>: \<open>hexPattern.test(key)\<close>. The anchor \<open>^\<close> lets the match start at
  index 0 only, \<open>{32}\<close> repeats the class 32 times, and \<open>$\<close> (no \<open>m\<close> flag) requires
  the end of the input after them.
\<close>

definition validateKey :: "unicode \<Rightarrow> jsstring \<Rightarrow> bool" where
  "validateKey U key =
     (case match_times (CharacterSetMatcher U True hexPattern_ranges) 32 key of
        None \<Rightarrow> False
      | Some rest \<Rightarrow> rest = [])"

definition normalizeKey :: "unicode \<Rightarrow> jsstring \<Rightarrow> jsstring" where
  "normalizeKey U key = String_trim (String_toLowerCase U key)"

text \<open>The hexadecimal characters as the specification lists them: 0-9, a-f, A-F.\<close>

definition isHexChar :: "16 word \<Rightarrow> bool" where
  "isHexChar c \<longleftrightarrow>
     (0x30 \<le> c \<and> c \<le> 0x39) \<or> (0x61 \<le> c \<and> c \<le> 0x66) \<or> (0x41 \<le> c \<and> c \<le> 0x46)"

section \<open>Numbers and their decimal form\<close>

text \<open>
  The chunk id is a JavaScript number: an integer, or \<open>NaN\<close> when the remainder is
  taken by zero. \<open>%\<close> takes the sign of the dividend. \<open>Number_toString\<close> is the
  conversion a template literal and \<open>String(...)\<close> apply; for the integers that occur
  here (below \<open>10^21\<close> in absolute value) it is the decimal form.
\<close>

datatype number = Num int | NaN

definition js_rem :: "int \<Rightarrow> int \<Rightarrow> number" where
  "js_rem n d = (if d = 0 then NaN else Num (sgn n * (\<bar>n\<bar> mod \<bar>d\<bar>)))"

definition number_plus :: "number \<Rightarrow> int \<Rightarrow> number" where
  "number_plus x k = (case x of Num i \<Rightarrow> Num (i + k) | NaN \<Rightarrow> NaN)"

function digits :: "nat \<Rightarrow> jsstring" where
  "digits n =
     (if n < 10 then [0x30 + word_of_nat n]
      else digits (n div 10) @ [0x30 + word_of_nat (n mod 10)])"
  by pat_completeness auto
termination
  by (relation "measure id") auto

definition Number_toString :: "number \<Rightarrow> jsstring" where
  "Number_toString x =
     (case x of
        NaN \<Rightarrow> js ''NaN''
      | Num i \<Rightarrow> if i < 0 then js ''-'' @ digits (nat (- i)) else digits (nat i))"

text \<open>
  \<open>performance.now()\<close> gives a time in milliseconds with a fraction; \<open>Math.round\<close>
  rounds to the nearest integer, halves upwards.
\<close>

definition Math_round :: "real \<Rightarrow> int" where
  "Math_round x = \<lfloor>x + 1 / 2\<rfloor>"

section \<open>Errors and the insertion-ordered map\<close>

text \<open>Every error the engine throws or receives is an object with a message.\<close>

datatype exn = Error jsstring | TypeError jsstring

fun message :: "exn \<Rightarrow> jsstring" where
  "message (Error m) = m"
| "message (TypeError m) = m"

text \<open>
  A JavaScript \<open>Map\<close> with string keys: the entries in insertion order, no key twice.
  \<open>set\<close> replaces the value of a key that is present, in place, and appends a new key
  at the end; \<open>keys().next().value\<close> is the oldest key.
\<close>

type_synonym 'v js_map = "(jsstring \<times> 'v) list"

definition Map_has :: "'v js_map \<Rightarrow> jsstring \<Rightarrow> bool" where
  "Map_has m k = (map_of m k \<noteq> None)"

definition Map_get :: "'v js_map \<Rightarrow> jsstring \<Rightarrow> 'v option" where
  "Map_get m k = map_of m k"

fun Map_set :: "'v js_map \<Rightarrow> jsstring \<Rightarrow> 'v \<Rightarrow> 'v js_map" where
  "Map_set [] k v = [(k, v)]"
| "Map_set (p # ps) k v = (if fst p = k then (k, v) # ps else p # Map_set ps k v)"

definition Map_delete :: "'v js_map \<Rightarrow> jsstring \<Rightarrow> 'v js_map" where
  "Map_delete m k = filter (\<lambda>p. fst p \<noteq> k) m"

definition Map_size :: "'v js_map \<Rightarrow> nat" where
  "Map_size m = length m"

definition Map_first_key :: "'v js_map \<Rightarrow> jsstring option" where
  "Map_first_key m = (case m of [] \<Rightarrow> None | p # _ \<Rightarrow> Some (fst p))"

section \<open>The lookup engine\<close>

text \<open>
  The fields of \<open>HashlyLookup\<close> the engine reads: \<open>meta\<close>, \<open>null\<close> until \<open>init\<close> has
  loaded it, and the chunk cache. \<open>maxCacheSize\<close> is assigned once, in the
  constructor, so it is a constant.
\<close>

record metadata =
  total_chunks :: int
  total_keys :: int

record HashlyLookup =
  meta :: "metadata option"
  cache :: "jsstring js_map"

definition maxCacheSize :: nat where
  "maxCacheSize = 10"

definition new_HashlyLookup :: HashlyLookup where
  "new_HashlyLookup = \<lparr> meta = None, cache = [] \<rparr>"

text \<open>
  \<open>getChunkId\<close>. Reading \<open>total_chunks\<close> of a \<open>null\<close> metadata throws a TypeError
  (the message is the engine's).
\<close>

definition getChunkId :: "HashlyLookup \<Rightarrow> jsstring \<Rightarrow> exn + number" where
  "getChunkId self key =
     (let hash = fnv1a_32 key
      in case meta self of
           None \<Rightarrow>
             Inl (TypeError (js ''Cannot read properties of null (reading 'total_chunks')''))
         | Some m \<Rightarrow> Inr (number_plus (js_rem hash (total_chunks m)) 1))"

definition addToCache :: "HashlyLookup \<Rightarrow> jsstring \<Rightarrow> jsstring \<Rightarrow> HashlyLookup" where
  "addToCache self key v =
     (let evicted =
            (if Map_size (cache self) \<ge> maxCacheSize
             then (case Map_first_key (cache self) of
                     None \<Rightarrow> cache self
                   | Some firstKey \<Rightarrow> Map_delete (cache self) firstKey)
             else cache self)
      in self\<lparr>cache := Map_set evicted key v\<rparr>)"

text \<open>
  The network, as one lookup sees it: what \<open>fetch(url)\<close> does for each URL. The
  promise rejects, or resolves to a response with its \<open>ok\<close> flag and its body; reading
  the body with \<open>text()\<close> can fail as well.
\<close>

datatype body = Body jsstring | BodyError exn
datatype response = Response (ok: bool) (text': body)
datatype fetch_result = Resolves response | Rejects exn
type_synonym network = "jsstring \<Rightarrow> fetch_result"

definition cacheKey :: "number \<Rightarrow> jsstring" where
  "cacheKey cid = js ''chunk_'' @ Number_toString cid"

definition filename :: "number \<Rightarrow> jsstring" where
  "filename cid = js ''chunk_'' @ String_padStart (Number_toString cid) 5 0x30 @ js ''.txt''"

definition url :: "number \<Rightarrow> jsstring" where
  "url cid = js ''chunks/'' @ filename cid"

text \<open>
  \<open>fetchChunk\<close> returns the chunk text or the error thrown, the engine after the call,
  and the URLs it requested. \<open>cache.has\<close> followed by \<open>cache.get\<close> is the lookup of
  the entry.
\<close>

definition fetchChunk ::
  "network \<Rightarrow> HashlyLookup \<Rightarrow> number \<Rightarrow> (exn + jsstring) \<times> HashlyLookup \<times> jsstring list" where
  "fetchChunk net self cid =
     (case Map_get (cache self) (cacheKey cid) of
        Some cached \<Rightarrow> (Inr cached, self, [])
      | None \<Rightarrow>
          (case net (url cid) of
             Rejects e \<Rightarrow> (Inl e, self, [url cid])
           | Resolves response \<Rightarrow>
               (if \<not> ok response
                then (Inl (Error (js ''Failed to fetch chunk '' @ Number_toString cid)),
                      self, [url cid])
                else (case text' response of
                        BodyError e \<Rightarrow> (Inl e, self, [url cid])
                      | Body t \<Rightarrow> (Inr t, addToCache self (cacheKey cid) t, [url cid])))))"

text \<open>\<open>scanChunk\<close>: the \<open>for\<close> loop over the lines is \<open>scan_lines\<close>.\<close>

fun scan_lines :: "jsstring list \<Rightarrow> jsstring \<Rightarrow> jsstring option" where
  "scan_lines [] targetKey = None"
| "scan_lines (line # lines) targetKey =
     (if String_trim line = [] then scan_lines lines targetKey
      else let colonIndex = String_indexOf line 0x3A in
        if colonIndex = - 1 then scan_lines lines targetKey
        else let key = String_trim (String_substring line 0 colonIndex) in
          if key = targetKey
          then Some (String_trim (String_substring_from line (colonIndex + 1)))
          else scan_lines lines targetKey)"

definition scanChunk :: "jsstring \<Rightarrow> jsstring \<Rightarrow> jsstring option" where
  "scanChunk chunkText targetKey = scan_lines (String_split chunkText 0x0A) targetKey"

text \<open>
  The object \<open>lookup\<close> returns, with the properties it may carry, and what a call of
  \<open>lookup\<close> leaves behind: the result, the engine, the URLs requested and the steps
  reported to \<open>onProgress\<close>.
\<close>

record lookup_result =
  success :: bool
  value' :: "jsstring option"
  error :: "jsstring option"
  duration :: int
  chunkId :: "number option"
  mphfIndex :: "jsstring option"

record outcome =
  result :: lookup_result
  engine :: HashlyLookup
  requests :: "jsstring list"
  progress :: "jsstring list"

text \<open>
  The clock gives the successive readings of \<open>performance.now()\<close> within one call.
  \<open>onProgress\<close> says whether a callback was passed; the callback observes the step
  names and returns.
\<close>

type_synonym clock = "nat \<Rightarrow> real"

definition emit :: "bool \<Rightarrow> jsstring \<Rightarrow> jsstring list" where
  "emit onProgress step = (if onProgress then [step] else [])"

text \<open>
  The \<open>try\<close> block of \<open>lookup\<close>: the object returned or the error thrown, the number of
  clock readings taken so far, the engine, the requests and the progress steps.
\<close>

definition lookup_try ::
  "unicode \<Rightarrow> network \<Rightarrow> clock \<Rightarrow> bool \<Rightarrow> jsstring \<Rightarrow> HashlyLookup
     \<Rightarrow> (exn + lookup_result) \<times> nat \<times> HashlyLookup \<times> jsstring list \<times> jsstring list" where
  "lookup_try U net now onProgress key self =
     (let startTime = now 0;
          p1 = emit onProgress (js ''Validating key...'')
      in if \<not> validateKey U key
         then (Inl (Error (js ''Invalid key format. Must be 32 hexadecimal characters.'')),
               1, self, [], p1)
         else
           let normalizedKey = normalizeKey U key;
               p2 = p1 @ emit onProgress (js ''Calculating chunk ID...'')
           in (case getChunkId self normalizedKey of
                 Inl e \<Rightarrow> (Inl e, 1, self, [], p2)
               | Inr cid \<Rightarrow>
                   let p3 = p2 @ emit onProgress
                              (js ''Loading chunk '' @ Number_toString cid @ js ''...'')
                   in (case fetchChunk net self cid of
                         (Inl e, self', reqs) \<Rightarrow> (Inl e, 1, self', reqs, p3)
                       | (Inr chunkText, self', reqs) \<Rightarrow>
                           let p4 = p3 @ emit onProgress (js ''Scanning for key...'');
                               v = scanChunk chunkText normalizedKey;
                               endTime = now 1
                           in (case v of
                                 None \<Rightarrow>
                                   (Inl (Error (js ''Key not found in dataset'')),
                                    2, self', reqs, p4)
                               | Some found \<Rightarrow>
                                   (Inr \<lparr> success = True, value' = Some found, error = None,
                                          duration = Math_round (endTime - startTime),
                                          chunkId = Some cid,
                                          mphfIndex = Some (js ''N/A'') \<rparr>,
                                    2, self', reqs, p4)))))"

text \<open>\<open>lookup\<close>: the \<open>try\<close> block and its \<open>catch\<close>, which reads the clock once more.\<close>

definition lookup ::
  "unicode \<Rightarrow> network \<Rightarrow> clock \<Rightarrow> bool \<Rightarrow> jsstring \<Rightarrow> HashlyLookup \<Rightarrow> outcome" where
  "lookup U net now onProgress key self =
     (let startTime = now 0
      in case lookup_try U net now onProgress key self of
           (Inr r, reads, self', reqs, steps) \<Rightarrow>
             \<lparr> result = r, engine = self', requests = reqs, progress = steps \<rparr>
         | (Inl e, reads, self', reqs, steps) \<Rightarrow>
             let endTime = now reads
             in \<lparr> result = \<lparr> success = False, value' = None, error = Some (message e),
                              duration = Math_round (endTime - startTime),
                              chunkId = None, mphfIndex = None \<rparr>,
                  engine = self', requests = reqs, progress = steps \<rparr>)"

section \<open>The scanner as the specification describes it\<close>

text \<open>
  The record lines of a chunk are the lines that are not empty after trimming and
  contain a colon; the key of a record line is the trimmed text before its first colon,
  its value the trimmed text after it. The scan returns the value of the first record
  line whose key is the target key. \<open>join_with\<close> puts lines together again.
\<close>

definition record_lines :: "jsstring \<Rightarrow> jsstring list" where
  "record_lines content =
     filter (\<lambda>l. String_trim l \<noteq> [] \<and> 0x3A \<in> set l) (String_split content 0x0A)"

definition key_part :: "jsstring \<Rightarrow> jsstring" where
  "key_part l = String_trim (takeWhile (\<lambda>c. c \<noteq> 0x3A) l)"

definition value_part :: "jsstring \<Rightarrow> jsstring" where
  "value_part l = String_trim (tl (dropWhile (\<lambda>c. c \<noteq> 0x3A) l))"

definition scan_spec :: "jsstring \<Rightarrow> jsstring \<Rightarrow> jsstring option" where
  "scan_spec content targetKey =
     map_option value_part (find (\<lambda>l. key_part l = targetKey) (record_lines content))"

fun join_with :: "16 word \<Rightarrow> jsstring list \<Rightarrow> jsstring" where
  "join_with sep [] = []"
| "join_with sep [l] = l"
| "join_with sep (l # ls) = l @ sep # join_with sep ls"

section \<open>The cache invariant and runs of the engine\<close>

text \<open>
  The invariant of the chunk cache: at most 10 entries, no key twice. \<open>fetchChunks\<close>
  fetches a list of chunk ids one after the other, and \<open>lookups\<close> runs a list of
  calls of \<open>lookup\<close>, each with its own network, clock, callback flag and key; both
  return the engine they leave behind.
\<close>

definition cache_ok :: "jsstring js_map \<Rightarrow> bool" where
  "cache_ok c \<longleftrightarrow> Map_size c \<le> 10 \<and> distinct (map fst c)"

fun fetchChunks :: "network \<Rightarrow> HashlyLookup \<Rightarrow> number list \<Rightarrow> HashlyLookup" where
  "fetchChunks net self [] = self"
| "fetchChunks net self (cid # cids) = fetchChunks net (fst (snd (fetchChunk net self cid))) cids"

type_synonym call = "network \<times> clock \<times> bool \<times> jsstring"

fun lookups :: "unicode \<Rightarrow> call list \<Rightarrow> HashlyLookup \<Rightarrow> HashlyLookup" where
  "lookups U [] self = self"
| "lookups U ((net, now, onProgress, key) # calls) self =
     lookups U calls (engine (lookup U net now onProgress key self))"

text \<open>Sample data: an engine after \<open>init\<close> fell back to the default metadata, and a
  network that answers every request with the URL as the body.\<close>

definition sample_engine :: HashlyLookup where
  "sample_engine = \<lparr> meta = Some \<lparr> total_chunks = 2860, total_keys = 14300247 \<rparr>, cache = [] \<rparr>"

definition echo_network :: network where
  "echo_network u = Resolves (Response True (Body u))"

section \<open>The two shapes of a lookup result\<close>

text \<open>
  The object built on the success path and the object built by the \<open>catch\<close> block.
\<close>

definition success_result :: "jsstring \<Rightarrow> int \<Rightarrow> number \<Rightarrow> lookup_result" where
  "success_result v d cid =
     \<lparr> success = True, value' = Some v, error = None, duration = d,
       chunkId = Some cid, mphfIndex = Some (js ''N/A'') \<rparr>"

definition failure_result :: "jsstring \<Rightarrow> int \<Rightarrow> lookup_result" where
  "failure_result msg d =
     \<lparr> success = False, value' = None, error = Some msg, duration = d,
       chunkId = None, mphfIndex = None \<rparr>"

text \<open>More sample data: a key, the chunk that holds it, a network that serves this
  chunk and no other, a network that serves nothing, and a clock.\<close>

definition sample_key :: jsstring where
  "sample_key = js ''0123456789abcdef0123456789abcdef''"

definition sample_chunk :: jsstring where
  "sample_chunk = js ''junk\<newline>0123456789abcdef0123456789abcdef: v:1 \<newline>''"

definition sample_network :: network where
  "sample_network u =
     (if u = js ''chunks/chunk_01646.txt'' then Resolves (Response True (Body sample_chunk))
      else Resolves (Response False (Body [])))"

definition missing_network :: network where
  "missing_network u = Resolves (Response False (Body []))"

definition sample_clock :: clock where
  "sample_clock n = (if n = 0 then 100 else if n = 1 then 112.5 else 120)"

section \<open>Properties of the hash function\<close>

lemma ToInt32_take_bit: "take_bit 32 (ToInt32 x) = take_bit 32 x"
proof -
  have "(x mod 2 ^ 32 - 2 ^ 32) mod 2 ^ 32 = x mod (2 ^ 32 :: int)"
    by (simp only: minus_mod_self2 mod_mod_trivial)
  then show ?thesis
    by (simp add: ToInt32_def Let_def take_bit_eq_mod)
qed

lemma Math_imul_take_bit: "take_bit 32 (Math_imul a b) = take_bit 32 (a * b)"
proof -
  let ?p = "(ToUint32 a * ToUint32 b) mod (2 ^ 32 :: int)"
  have p: "?p = (a * b) mod 2 ^ 32"
    unfolding ToUint32_def by (simp only: mod_mult_eq mod_mod_trivial)
  have "(?p - 2 ^ 32) mod 2 ^ 32 = ?p"
    by (simp only: minus_mod_self2 mod_mod_trivial)
  then have "Math_imul a b mod 2 ^ 32 = ?p"
    by (simp add: Math_imul_def Let_def)
  with p show ?thesis by (simp only: take_bit_eq_mod)
qed

lemma js_xor_take_bit: "take_bit 32 (js_xor a b) = take_bit 32 a XOR take_bit 32 b"
  by (simp only: js_xor_def take_bit_xor ToInt32_take_bit)

lemma fnv_step_int:
  "take_bit 32 (Math_imul (js_xor h (uint (c :: 16 word))) p) =
     take_bit 32 ((take_bit 32 h XOR uint c) * p)"
proof -
  have c: "take_bit 32 (uint c) = uint c"
    by (rule bintr_uint) simp
  have "take_bit 32 (Math_imul (js_xor h (uint c)) p) = take_bit 32 (js_xor h (uint c) * p)"
    by (rule Math_imul_take_bit)
  also have "\<dots> = take_bit 32 (take_bit 32 (js_xor h (uint c)) * take_bit 32 p)"
    by (simp only: take_bit_mult)
  also have "\<dots> = take_bit 32 (take_bit 32 (take_bit 32 h XOR uint c) * take_bit 32 p)"
    by (simp only: js_xor_take_bit c take_bit_xor take_bit_take_bit min.idem)
  also have "\<dots> = take_bit 32 ((take_bit 32 h XOR uint c) * p)"
    by (simp only: take_bit_mult)
  finally show ?thesis .
qed

lemma fnv_step_nat:
  "nat (take_bit 32 (Math_imul (js_xor h (uint (c :: 16 word))) p)) =
     ((nat (take_bit 32 h) XOR unat c) * nat p) mod 2 ^ 32" if "0 \<le> p"
proof -
  have h: "int (nat (take_bit 32 h)) = take_bit 32 h" by simp
  have p: "int (nat p) = p" using that by simp
  have "int (((nat (take_bit 32 h) XOR unat c) * nat p) mod 2 ^ 32) =
      take_bit 32 (int ((nat (take_bit 32 h) XOR unat c) * nat p))"
    by (simp only: take_bit_eq_mod of_nat_mod of_nat_power of_nat_numeral)
  also have "\<dots> = take_bit 32 ((take_bit 32 h XOR uint c) * p)"
    by (simp only: of_nat_mult of_nat_xor_eq h p uint_nat)
  finally have "int (((nat (take_bit 32 h) XOR unat c) * nat p) mod 2 ^ 32) =
      take_bit 32 (Math_imul (js_xor h (uint c)) p)"
    by (simp only: fnv_step_int)
  then show ?thesis
    by (metis nat_int)
qed

lemma fnv_loop_ref:
  "nat (take_bit 32 (fnv_loop h s)) = fnv1a_ref_from (nat (take_bit 32 h)) (map unat s)"
proof (induction s arbitrary: h)
  case Nil
  show ?case by simp
next
  case (Cons c cs)
  have "nat (take_bit 32 (Math_imul (js_xor h (uint c)) 0x01000193)) =
      ((nat (take_bit 32 h) XOR unat c) * 0x01000193) mod 2 ^ 32"
    using fnv_step_nat [of "0x01000193" h c] by simp
  then show ?case
    by (simp add: Cons.IH)
qed

lemma fnv1a_32_eq_ref: "fnv1a_32 s = int (fnv1a_ref (map unat s))"
proof -
  have "nat (take_bit 32 (0x811c9dc5 :: int)) = 0x811c9dc5"
    by simp
  then have "nat (take_bit 32 (fnv_loop 0x811c9dc5 s)) = fnv1a_ref (map unat s)"
    using fnv_loop_ref [of "0x811c9dc5" s] by (simp only: fnv1a_ref_def)
  then show ?thesis
    by (simp add: fnv1a_32_def ToUint32_def take_bit_eq_mod)
qed

lemma fnv1a_32_range: "0 \<le> fnv1a_32 s \<and> fnv1a_32 s < 2 ^ 32"
  by (simp add: fnv1a_32_def ToUint32_def)

text \<open>
  Claim C1. For every string \<open>s\<close>, \<open>fnv1a_32 s\<close> is the FNV-1a 32-bit reference hash of
  the character codes of \<open>s\<close>: \<open>h\<close> starts at \<open>0x811c9dc5\<close> and, for each character in
  order, is XORed with the character code and then multiplied by \<open>0x01000193\<close> modulo
  \<open>2^32\<close>. The result depends on the string alone, so equal inputs give equal outputs,
  and the empty string hashes to the seed \<open>0x811c9dc5\<close>.
\<close>

theorem fnv1a_32_reference:
  "fnv1a_32 s = int (fnv1a_ref (map unat s))
   \<and> (\<forall>t. t = s \<longrightarrow> fnv1a_32 t = fnv1a_32 s)
   \<and> fnv1a_32 [] = 0x811c9dc5"
proof -
  have "fnv1a_32 [] = 0x811c9dc5"
    by (simp add: fnv1a_32_def ToUint32_def)
  then show ?thesis
    using fnv1a_32_eq_ref [of s] by simp
qed

theorem fnv1a_32_reference_witness:
  "fnv1a_32 (js ''ab'') = 0x4d2505ca \<and> js ''ab'' = [0x61, 0x62]"
proof -
  have s: "js ''ab'' = [0x61, 0x62]"
    by (simp add: js_def)
  have "fnv1a_ref (map unat [0x61, 0x62 :: 16 word]) = 0x4d2505ca"
    by (simp add: fnv1a_ref_def)
  then show ?thesis
    using fnv1a_32_reference [of "js ''ab''"] s by simp
qed

section \<open>Properties of the key validator\<close>

lemma members: "class_members hexPattern_ranges =
   [0x30, 0x31, 0x32, 0x33, 0x34, 0x35, 0x36, 0x37, 0x38, 0x39, 0x61, 0x62, 0x63, 0x64, 0x65, 0x66]"
  by code_simp

lemma match_times_Some:
  "match_times p n s = Some r \<longleftrightarrow> n \<le> length s \<and> list_all p (take n s) \<and> r = drop n s"
  by (induction p n s rule: match_times.induct) auto

lemma validateKey_iff_class:
  "validateKey U key \<longleftrightarrow>
     length key = 32 \<and> list_all (CharacterSetMatcher U True hexPattern_ranges) key"
proof (cases "match_times (CharacterSetMatcher U True hexPattern_ranges) 32 key")
  case None
  then have "\<not> (32 \<le> length key \<and> list_all (CharacterSetMatcher U True hexPattern_ranges) (take 32 key))"
    using match_times_Some [of "CharacterSetMatcher U True hexPattern_ranges" 32 key "drop 32 key"]
    by simp
  with None show ?thesis
    by (auto simp: validateKey_def)
next
  case (Some r)
  then have r: "32 \<le> length key" "list_all (CharacterSetMatcher U True hexPattern_ranges) (take 32 key)"
     "r = drop 32 key"
    by (simp_all add: match_times_Some)
  show ?thesis
  proof (cases "length key = 32")
    case True
    with Some r show ?thesis by (simp add: validateKey_def)
  next
    case False
    with Some r show ?thesis by (simp add: validateKey_def)
  qed
qed

lemma Canonicalize_ascii: "Canonicalize U True c = ascii_upper c" if "c < 0x80"
proof -
  from that have "\<not> 128 \<le> c"
    by (simp only: not_le)
  with that show ?thesis
    by (simp add: Canonicalize_def toUppercase_unit_def)
qed

lemma Canonicalize_other: "\<not> c < 0x80 \<Longrightarrow> \<not> Canonicalize U True c < 0x80"
  by (auto simp: Canonicalize_def toUppercase_unit_def split: list.splits)

lemma ascii_upper_hex:
  "c < 0x80 \<Longrightarrow> ascii_upper c \<in> set [0x30, 0x31, 0x32, 0x33, 0x34, 0x35, 0x36, 0x37, 0x38, 0x39, 0x41, 0x42, 0x43, 0x44, 0x45, 0x46] \<longleftrightarrow> isHexChar c"
  unfolding ascii_upper_def isHexChar_def
  apply (simp split: if_splits)
  apply unat_arith
  done

lemma canonical_members:
  "map (Canonicalize U True) (class_members hexPattern_ranges) =
     [0x30, 0x31, 0x32, 0x33, 0x34, 0x35, 0x36, 0x37, 0x38, 0x39, 0x41, 0x42, 0x43, 0x44, 0x45, 0x46]"
  by (simp add: members Canonicalize_ascii ascii_upper_def)

lemma CharacterSetMatcher_eq:
  "CharacterSetMatcher U ic ranges c \<longleftrightarrow>
     Canonicalize U ic c \<in> set (map (Canonicalize U ic) (class_members ranges))"
  by (simp add: CharacterSetMatcher_def list_ex_iff image_iff) metis

lemma CharacterSetMatcher_hex:
  "CharacterSetMatcher U True hexPattern_ranges c \<longleftrightarrow> isHexChar c"
proof (cases "c < 0x80")
  case True
  then show ?thesis
    unfolding CharacterSetMatcher_eq canonical_members
    by (simp only: Canonicalize_ascii ascii_upper_hex)
next
  case False
  then have "\<not> Canonicalize U True c < 0x80"
    by (rule Canonicalize_other)
  then have "Canonicalize U True c \<notin> set [0x30, 0x31, 0x32, 0x33, 0x34, 0x35, 0x36, 0x37, 0x38, 0x39, 0x41, 0x42, 0x43, 0x44, 0x45, 0x46]"
    by auto
  moreover from False have "\<not> isHexChar c"
    unfolding isHexChar_def by unat_arith
  ultimately show ?thesis
    unfolding CharacterSetMatcher_eq canonical_members by simp
qed

lemma validateKey_iff: "validateKey U key \<longleftrightarrow> length key = 32 \<and> list_all isHexChar key"
proof -
  have "list_all (CharacterSetMatcher U True hexPattern_ranges) key = list_all isHexChar key"
    by (rule list.pred_cong) (simp_all add: CharacterSetMatcher_hex)
  then show ?thesis
    by (simp add: validateKey_iff_class)
qed

lemma isWhiteSpace_not_hex: "isWhiteSpace c \<Longrightarrow> \<not> isHexChar c"
  unfolding isWhiteSpace_def isHexChar_def
  by (elim disjE) (auto, unat_arith+)

text \<open>
  Claim C5. \<open>validateKey raw\<close> is true if and only if \<open>raw\<close> consists of exactly 32
  hexadecimal characters (0-9, a-f, A-F) and nothing else, whatever the case tables of
  the engine are. In particular it is false for a string of length 31 or 33, for the
  empty string, for a string with a character that is not hexadecimal, and for a string
  that contains whitespace.
\<close>

theorem validateKey_exactly_32_hex:
  "(validateKey U raw \<longleftrightarrow> length raw = 32 \<and> (\<forall>c \<in> set raw. isHexChar c))
   \<and> (length raw = 31 \<or> length raw = 33 \<or> raw = [] \<longrightarrow> \<not> validateKey U raw)
   \<and> ((\<exists>c \<in> set raw. \<not> isHexChar c) \<longrightarrow> \<not> validateKey U raw)
   \<and> ((\<exists>c \<in> set raw. isWhiteSpace c) \<longrightarrow> \<not> validateKey U raw)"
proof -
  have iff: "validateKey U raw \<longleftrightarrow> length raw = 32 \<and> (\<forall>c \<in> set raw. isHexChar c)"
    by (simp add: validateKey_iff list_all_iff)
  moreover have "length raw = 31 \<or> length raw = 33 \<or> raw = [] \<longrightarrow> \<not> validateKey U raw"
    using iff by auto
  moreover have "(\<exists>c \<in> set raw. \<not> isHexChar c) \<longrightarrow> \<not> validateKey U raw"
    using iff by auto
  moreover have "(\<exists>c \<in> set raw. isWhiteSpace c) \<longrightarrow> \<not> validateKey U raw"
    using iff isWhiteSpace_not_hex by blast
  ultimately show ?thesis
    by (intro conjI)
qed

theorem validateKey_exactly_32_hex_witness:
  "validateKey plain_unicode (js ''0123456789abcdefABCDEF0123456789'')
   \<and> \<not> validateKey plain_unicode (js ''0123456789abcdefABCDEF012345678'')
   \<and> \<not> validateKey plain_unicode (js ''0123456789abcdefABCDEF01234567890'')
   \<and> \<not> validateKey plain_unicode (js ''0123456789abcdefABCDEG0123456789'')
   \<and> \<not> validateKey plain_unicode (js ''0123456789abcdef ABCDEF012345678'')
   \<and> \<not> validateKey plain_unicode []"
proof -
  have "validateKey plain_unicode (js ''0123456789abcdefABCDEF0123456789'')"
    using validateKey_exactly_32_hex [of plain_unicode "js ''0123456789abcdefABCDEF0123456789''"]
    by (simp add: js_def isHexChar_def)
  moreover have "\<not> validateKey plain_unicode (js ''0123456789abcdefABCDEF012345678'')"
    using validateKey_exactly_32_hex [of plain_unicode "js ''0123456789abcdefABCDEF012345678''"]
    by (simp add: js_def)
  moreover have "\<not> validateKey plain_unicode (js ''0123456789abcdefABCDEF01234567890'')"
    using validateKey_exactly_32_hex [of plain_unicode "js ''0123456789abcdefABCDEF01234567890''"]
    by (simp add: js_def)
  moreover have "\<not> validateKey plain_unicode (js ''0123456789abcdefABCDEG0123456789'')"
    using validateKey_exactly_32_hex [of plain_unicode "js ''0123456789abcdefABCDEG0123456789''"]
    by (simp add: js_def isHexChar_def)
  moreover have "\<not> validateKey plain_unicode (js ''0123456789abcdef ABCDEF012345678'')"
    using validateKey_exactly_32_hex [of plain_unicode "js ''0123456789abcdef ABCDEF012345678''"]
    by (simp add: js_def isWhiteSpace_def isHexChar_def)
  moreover have "\<not> validateKey plain_unicode []"
    using validateKey_exactly_32_hex [of plain_unicode "[]"]
    by simp
  ultimately show ?thesis
    by (intro conjI)
qed

section \<open>Properties of the shard locator\<close>

lemma js_rem_nonneg: "0 \<le> n \<Longrightarrow> 0 < d \<Longrightarrow> js_rem n d = Num (n mod d)"
  by (cases "n = 0") (simp_all add: js_rem_def)

lemma fnv_abc: "fnv1a_32 (js ''0123456789abcdef0123456789abcdef'') = 2261798325"
  by (simp add: fnv1a_32_def js_def Math_imul_def js_xor_def ToInt32_def ToUint32_def)

text \<open>
  Claim C2. For every key and every positive integer \<open>N\<close> as \<open>total_chunks\<close>,
  \<open>getChunkId\<close> returns \<open>(fnv1a_32 key mod N) + 1\<close>, an integer in the range \<open>[1, N]\<close>.
\<close>

theorem getChunkId_in_range:
  assumes "meta self = Some m" and "total_chunks m = N" and "0 < N"
  shows "getChunkId self key = Inr (Num (fnv1a_32 key mod N + 1))
         \<and> 1 \<le> fnv1a_32 key mod N + 1 \<and> fnv1a_32 key mod N + 1 \<le> N"
proof -
  have "0 \<le> fnv1a_32 key"
    using fnv1a_32_range [of key] by simp
  with assms have "getChunkId self key = Inr (Num (fnv1a_32 key mod N + 1))"
    by (simp add: getChunkId_def js_rem_nonneg number_plus_def)
  moreover from \<open>0 < N\<close> have "0 \<le> fnv1a_32 key mod N" "fnv1a_32 key mod N < N"
    by simp_all
  ultimately show ?thesis
    by simp
qed

theorem getChunkId_in_range_witness:
  "getChunkId \<lparr> meta = Some \<lparr> total_chunks = 2860, total_keys = 14300247 \<rparr>, cache = [] \<rparr>
     (js ''0123456789abcdef0123456789abcdef'') = Inr (Num 1646)"
  using getChunkId_in_range
    [of "\<lparr> meta = Some \<lparr> total_chunks = 2860, total_keys = 14300247 \<rparr>, cache = [] \<rparr>"
        "\<lparr> total_chunks = 2860, total_keys = 14300247 \<rparr>" 2860
        "js ''0123456789abcdef0123456789abcdef''"]
  by (simp add: fnv_abc)

section \<open>Properties of the scanner\<close>

lemma String_split_not_Nil: "String_split s sep \<noteq> []"
  by (induction s) (auto split: list.splits)

lemma String_split_join: "join_with sep (String_split s sep) = s"
proof (induction s)
  case Nil
  show ?case by simp
next
  case (Cons c cs)
  obtain l ls where split: "String_split cs sep = l # ls"
    using String_split_not_Nil [of cs sep] by (cases "String_split cs sep") auto
  with Cons.IH have "join_with sep (l # ls) = cs" by simp
  with split show ?case
    by (cases ls) auto
qed

lemma String_split_no_sep: "l \<in> set (String_split s sep) \<Longrightarrow> sep \<notin> set l"
  by (induction s arbitrary: l) (auto split: if_splits list.splits)

lemma indexOf_from_eq:
  "indexOf_from s ch i =
     (if ch \<in> set s then i + int (length (takeWhile (\<lambda>c. c \<noteq> ch) s)) else - 1)"
  by (induction s arbitrary: i) auto

lemma String_indexOf_eq:
  "String_indexOf s ch =
     (if ch \<in> set s then int (length (takeWhile (\<lambda>c. c \<noteq> ch) s)) else - 1)"
  by (simp add: String_indexOf_def indexOf_from_eq)

lemma String_substring_take:
  "n \<le> length s \<Longrightarrow> String_substring s 0 (int n) = take n s"
  by (simp add: String_substring_def Let_def min_def max_def)

lemma String_substring_from_drop:
  "n \<le> length s \<Longrightarrow> String_substring_from s (int n) = drop n s"
  by (simp add: String_substring_from_def String_substring_def Let_def min_def max_def)

lemma before_colon:
  "String_substring l 0 (int (length (takeWhile (\<lambda>c. c \<noteq> ch) l))) = takeWhile (\<lambda>c. c \<noteq> ch) l"
proof -
  have "length (takeWhile (\<lambda>c. c \<noteq> ch) l) \<le> length l"
    by (rule length_takeWhile_le)
  then have "String_substring l 0 (int (length (takeWhile (\<lambda>c. c \<noteq> ch) l))) =
      take (length (takeWhile (\<lambda>c. c \<noteq> ch) l)) l"
    by (rule String_substring_take)
  then show ?thesis
    by (simp add: takeWhile_eq_take [symmetric])
qed

lemma takeWhile_shorter:
  "ch \<in> set l \<Longrightarrow> length (takeWhile (\<lambda>c. c \<noteq> ch) l) < length l"
  by (induction l) auto

lemma after_colon:
  assumes "ch \<in> set l"
  shows "String_substring_from l (int (length (takeWhile (\<lambda>c. c \<noteq> ch) l)) + 1) =
     tl (dropWhile (\<lambda>c. c \<noteq> ch) l)"
proof -
  let ?n = "length (takeWhile (\<lambda>c. c \<noteq> ch) l)"
  from assms have "?n < length l"
    by (rule takeWhile_shorter)
  then have "Suc ?n \<le> length l" by simp
  then have "String_substring_from l (int (Suc ?n)) = drop (Suc ?n) l"
    by (rule String_substring_from_drop)
  moreover have "drop (Suc ?n) l = tl (drop ?n l)"
    by (simp add: drop_Suc tl_drop)
  moreover have "drop ?n l = dropWhile (\<lambda>c. c \<noteq> ch) l"
    by (simp add: dropWhile_eq_drop)
  ultimately show ?thesis
    by (simp add: add.commute)
qed

lemma scan_lines_spec:
  "scan_lines ls t =
     map_option value_part
       (find (\<lambda>l. key_part l = t) (filter (\<lambda>l. String_trim l \<noteq> [] \<and> 0x3A \<in> set l) ls))"
proof (induction ls)
  case Nil
  show ?case by simp
next
  case (Cons l ls)
  show ?case
  proof (cases "String_trim l \<noteq> [] \<and> 0x3A \<in> set l")
    case True
    then show ?thesis
      using Cons.IH
      by (simp add: String_indexOf_eq Let_def before_colon after_colon key_part_def value_part_def)
  next
    case False
    then show ?thesis
      using Cons.IH
      by (auto simp: String_indexOf_eq Let_def)
  qed
qed

lemma scanChunk_spec: "scanChunk content t = scan_spec content t"
  by (simp add: scanChunk_def scan_spec_def record_lines_def scan_lines_spec)

text \<open>
  Claim C4. \<open>scanChunk content targetKey\<close> splits the content on newline, skips the
  lines that are empty after trimming and the lines without a colon, splits each
  remaining line at its first colon, and returns the trimmed text after the colon of the
  first line whose trimmed text before the colon is exactly \<open>targetKey\<close>. It returns
  nothing when no line matches, and a value that contains colons is returned whole.
\<close>

theorem scanChunk_first_match:
  "scanChunk content targetKey = scan_spec content targetKey
   \<and> join_with 0x0A (String_split content 0x0A) = content
   \<and> (\<forall>l \<in> set (String_split content 0x0A). 0x0A \<notin> set l)
   \<and> (scanChunk content targetKey = None \<longleftrightarrow>
        \<not> (\<exists>l \<in> set (record_lines content). key_part l = targetKey))
   \<and> scanChunk (js ''key:part1:part2'') (js ''key'') = Some (js ''part1:part2'')"
proof -
  have "scanChunk content targetKey = None \<longleftrightarrow>
      \<not> (\<exists>l \<in> set (record_lines content). key_part l = targetKey)"
    by (auto simp: scanChunk_spec scan_spec_def find_None_iff)
  moreover have "scanChunk (js ''key:part1:part2'') (js ''key'') = Some (js ''part1:part2'')"
    by (simp add: scanChunk_def js_def String_trim_def String_trimStart_def String_trimEnd_def
        isWhiteSpace_def String_indexOf_def String_substring_def String_substring_from_def)
  ultimately show ?thesis
    using scanChunk_spec [of content targetKey] String_split_join [of "0x0A" content]
      String_split_no_sep [of _ content "0x0A"]
    by blast
qed

theorem scanChunk_first_match_witness:
  "scanChunk (js ''no colon here\<newline>   \<newline>KEY: wrong\<newline> key : v:1 \<newline>key:v2'') (js ''key'')
     = Some (js ''v:1'')
   \<and> scanChunk (js ''no colon here\<newline>   \<newline>KEY: wrong\<newline> key : v:1 \<newline>key:v2'') (js ''kex'')
     = None"
proof -
  let ?content = "js ''no colon here\<newline>   \<newline>KEY: wrong\<newline> key : v:1 \<newline>key:v2''"
  have lines: "record_lines ?content = [js ''KEY: wrong'', js '' key : v:1 '', js ''key:v2'']"
    by (simp add: record_lines_def js_def String_trim_def String_trimStart_def
        String_trimEnd_def isWhiteSpace_def)
  have keys: "map key_part [js ''KEY: wrong'', js '' key : v:1 '', js ''key:v2''] =
      [js ''KEY'', js ''key'', js ''key'']"
    by (simp add: key_part_def js_def String_trim_def String_trimStart_def
        String_trimEnd_def isWhiteSpace_def)
  have val: "value_part (js '' key : v:1 '') = js ''v:1''"
    by (simp add: value_part_def js_def String_trim_def String_trimStart_def
        String_trimEnd_def isWhiteSpace_def)
  have found: "scan_spec ?content (js ''key'') = Some (js ''v:1'')"
    using keys val by (simp add: scan_spec_def lines) (simp add: js_def)
  have absent: "\<not> (\<exists>l \<in> set (record_lines ?content). key_part l = js ''kex'')"
    using keys by (simp add: lines) (simp add: js_def)
  have "scanChunk ?content (js ''key'') = scan_spec ?content (js ''key'')"
    using scanChunk_first_match [of ?content "js ''key''"] by (rule conjunct1)
  moreover have "scanChunk ?content (js ''kex'') = None"
    using scanChunk_first_match [of ?content "js ''kex''"] absent by blast
  ultimately show ?thesis
    using found by simp
qed

section \<open>Properties of the decimal form\<close>

declare digits.simps [simp del]

lemma digit_unat: "n < 10 \<Longrightarrow> unat (0x30 + word_of_nat n :: 16 word) = 48 + n"
  by (simp add: unat_word_ariths unat_of_nat)

lemma digits_not_Nil: "digits n \<noteq> []"
  by (subst digits.simps) simp

lemma digits_chars: "c \<in> set (digits n) \<Longrightarrow> 48 \<le> unat c \<and> unat c \<le> 57"
proof (induction n arbitrary: c rule: digits.induct)
  case (1 n)
  show ?case
  proof (cases "n < 10")
    case True
    with "1.prems" have "c = 0x30 + word_of_nat n"
      by (subst (asm) digits.simps) simp
    with True show ?thesis
      by (simp add: digit_unat)
  next
    case False
    with "1.prems" have "c \<in> set (digits (n div 10)) \<or> c = 0x30 + word_of_nat (n mod 10)"
      by (subst (asm) digits.simps) auto
    then show ?thesis
    proof
      assume "c \<in> set (digits (n div 10))"
      with False "1.IH" show ?thesis by simp
    next
      assume "c = 0x30 + word_of_nat (n mod 10)"
      then show ?thesis
        by (simp add: digit_unat)
    qed
  qed
qed

lemma undigits_digits: "foldl (\<lambda>a c. 10 * a + (unat c - 48)) 0 (digits n) = n"
proof (induction n rule: digits.induct)
  case (1 n)
  show ?case
  proof (cases "n < 10")
    case True
    then show ?thesis
      by (subst digits.simps) (simp add: digit_unat)
  next
    case False
    with "1.IH" show ?thesis
      by (subst digits.simps) (simp add: digit_unat)
  qed
qed

lemma digits_inj: "digits m = digits n \<Longrightarrow> m = n"
  by (metis undigits_digits)

lemma digits_hd: "digits n = c # cs \<Longrightarrow> 48 \<le> unat c \<and> unat c \<le> 57"
  using digits_chars [of c n] by simp

lemma digits_not_minus: "digits n \<noteq> 0x2D # cs"
  using digits_hd [of n "0x2D" cs] by auto

lemma digits_not_NaN: "digits n \<noteq> js ''NaN''"
  using digits_hd [of n "0x4E" "[0x61, 0x4E]"] by (auto simp: js_def)

lemma Number_toString_Num:
  "Number_toString (Num i) = (if i < 0 then 0x2D # digits (nat (- i)) else digits (nat i))"
  by (simp add: Number_toString_def js_def)

lemma Number_toString_NaN: "Number_toString NaN = js ''NaN''"
  by (simp add: Number_toString_def)

lemma Number_toString_Num_not_NaN: "Number_toString (Num i) \<noteq> Number_toString NaN"
  using digits_not_NaN [of "nat i"]
  by (auto simp: Number_toString_Num Number_toString_NaN) (simp add: js_def)

lemma Number_toString_inj: "Number_toString x = Number_toString y \<Longrightarrow> x = y"
proof (cases x; cases y)
  fix i j
  assume eq: "Number_toString x = Number_toString y" and x: "x = Num i" and y: "y = Num j"
  consider "i < 0" "j < 0" | "i < 0" "\<not> j < 0" | "\<not> i < 0" "j < 0" | "\<not> i < 0" "\<not> j < 0"
    by blast
  then have "i = j"
  proof cases
    case 1
    with eq x y have "digits (nat (- i)) = digits (nat (- j))"
      by (simp add: Number_toString_Num)
    then have "nat (- i) = nat (- j)" by (rule digits_inj)
    with 1 show ?thesis by simp
  next
    case 2
    with eq x y digits_not_minus [of "nat j" "digits (nat (- i))"] show ?thesis
      by (simp add: Number_toString_Num)
  next
    case 3
    with eq x y digits_not_minus [of "nat i" "digits (nat (- j))"] show ?thesis
      by (simp add: Number_toString_Num)
  next
    case 4
    with eq x y have "digits (nat i) = digits (nat j)"
      by (simp add: Number_toString_Num)
    then have "nat i = nat j" by (rule digits_inj)
    with 4 show ?thesis by simp
  qed
  with x y show "x = y" by simp
next
  fix i
  assume "Number_toString x = Number_toString y" and "x = Num i" and "y = NaN"
  then show "x = y"
    using Number_toString_Num_not_NaN [of i] by simp
next
  fix j
  assume "Number_toString x = Number_toString y" and "x = NaN" and "y = Num j"
  then show "x = y"
    using Number_toString_Num_not_NaN [of j] by simp
next
  assume "x = NaN" and "y = NaN"
  then show "x = y" by simp
qed

lemma cacheKey_inj: "cacheKey x = cacheKey y \<Longrightarrow> x = y"
  by (simp add: cacheKey_def Number_toString_inj)

section \<open>Properties of the insertion-ordered map and the chunk cache\<close>

lemma Map_has_keys: "Map_has m k \<longleftrightarrow> k \<in> fst ` set m"
  by (simp add: Map_has_def map_of_eq_None_iff)

lemma Map_get_keys: "Map_get m k = None \<longleftrightarrow> k \<notin> fst ` set m"
  by (simp add: Map_get_def map_of_eq_None_iff)

lemma Map_set_fresh: "k \<notin> fst ` set m \<Longrightarrow> Map_set m k v = m @ [(k, v)]"
  by (induction m) auto

lemma keys_Map_set:
  "map fst (Map_set m k v) = (if k \<in> fst ` set m then map fst m else map fst m @ [k])"
  by (induction m) auto

lemma Map_get_Map_set:
  "Map_get (Map_set m k v) k' = (if k' = k then Some v else Map_get m k')"
  by (induction m) (auto simp: Map_get_def)

lemma length_Map_set: "length (Map_set m k v) \<le> Suc (length m)"
  by (induction m) auto

lemma distinct_Map_set: "distinct (map fst m) \<Longrightarrow> distinct (map fst (Map_set m k v))"
  by (simp add: keys_Map_set)

lemma distinct_Map_delete: "distinct (map fst m) \<Longrightarrow> distinct (map fst (Map_delete m k))"
  by (simp add: Map_delete_def distinct_map_filter)

lemma Map_delete_first:
  "distinct (map fst (p # ps)) \<Longrightarrow> Map_delete (p # ps) (fst p) = ps"
proof -
  assume "distinct (map fst (p # ps))"
  then have "fst p \<notin> fst ` set ps" by simp
  then have "\<forall>q \<in> set ps. fst q \<noteq> fst p" by (metis imageI)
  then have "filter (\<lambda>q. fst q \<noteq> fst p) ps = ps"
    by (simp add: filter_id_conv)
  then show ?thesis
    by (simp add: Map_delete_def)
qed

lemma length_Map_delete_first: "length (Map_delete (p # ps) (fst p)) \<le> length ps"
  by (simp add: Map_delete_def)

lemma Map_get_Map_delete:
  "Map_get (Map_delete m k) k' = (if k' = k then None else Map_get m k')"
  by (induction m) (auto simp: Map_get_def Map_delete_def)

lemma addToCache_meta: "meta (addToCache self k v) = meta self"
  by (simp add: addToCache_def Let_def)

lemma addToCache_size: "Map_size (cache self) \<le> 10 \<Longrightarrow> Map_size (cache (addToCache self k v)) \<le> 10"
proof (cases "cache self")
  case Nil
  then show ?thesis
    by (simp add: addToCache_def Map_size_def maxCacheSize_def Map_first_key_def)
next
  case (Cons p ps)
  assume le: "Map_size (cache self) \<le> 10"
  show ?thesis
  proof (cases "Map_size (cache self) \<ge> maxCacheSize")
    case True
    have "length (Map_set (Map_delete (p # ps) (fst p)) k v) \<le> Suc (length (Map_delete (p # ps) (fst p)))"
      by (rule length_Map_set)
    also have "\<dots> \<le> Suc (length ps)"
      using length_Map_delete_first [of p ps] by simp
    finally show ?thesis
      using True le Cons by (simp add: addToCache_def Map_size_def Map_first_key_def)
  next
    case False
    then have "length (cache self) < 10"
      by (simp add: Map_size_def maxCacheSize_def)
    moreover have "length (Map_set (cache self) k v) \<le> Suc (length (cache self))"
      by (rule length_Map_set)
    ultimately show ?thesis
      using False by (simp add: addToCache_def Map_size_def)
  qed
qed

lemma addToCache_distinct:
  "distinct (map fst (cache self)) \<Longrightarrow> distinct (map fst (cache (addToCache self k v)))"
  by (auto simp: addToCache_def Let_def distinct_Map_set distinct_Map_delete
      split: option.splits)

lemma addToCache_ok: "cache_ok (cache self) \<Longrightarrow> cache_ok (cache (addToCache self k v))"
  by (simp add: cache_ok_def addToCache_size addToCache_distinct)

lemma addToCache_fifo:
  assumes "Map_size (cache self) = 10" and "distinct (map fst (cache self))"
    and "\<not> Map_has (cache self) k"
  shows "cache (addToCache self k v) = tl (cache self) @ [(k, v)]"
proof -
  from assms(1) obtain p ps where c: "cache self = p # ps"
    by (cases "cache self") (auto simp: Map_size_def)
  with assms(2) have del: "Map_delete (cache self) (fst p) = ps"
    by (simp add: Map_delete_first)
  from assms(3) c have "k \<notin> fst ` set ps"
    by (simp add: Map_has_keys)
  then have "Map_set ps k v = ps @ [(k, v)]"
    by (rule Map_set_fresh)
  with assms(1) c del show ?thesis
    by (simp add: addToCache_def Map_first_key_def maxCacheSize_def)
qed

lemma addToCache_room:
  assumes "Map_size (cache self) < 10" and "\<not> Map_has (cache self) k"
  shows "cache (addToCache self k v) = cache self @ [(k, v)]"
  using assms by (simp add: addToCache_def maxCacheSize_def Map_has_keys Map_set_fresh)

lemma response_eq: "r = Response True (Body t) \<longleftrightarrow> ok r \<and> text' r = Body t"
  by (cases r) auto

lemma fetchChunk_engine:
  "fst (snd (fetchChunk net self cid)) = self
   \<or> (\<exists>t. Map_get (cache self) (cacheKey cid) = None
          \<and> net (url cid) = Resolves (Response True (Body t))
          \<and> fetchChunk net self cid = (Inr t, addToCache self (cacheKey cid) t, [url cid]))"
  by (auto simp: fetchChunk_def response_eq split: option.splits fetch_result.splits body.splits)

lemma fetchChunk_hit:
  "Map_get (cache self) (cacheKey cid) = Some cached \<Longrightarrow>
     fetchChunk net self cid = (Inr cached, self, [])"
  by (simp add: fetchChunk_def)

lemma fetchChunk_miss_ok:
  "Map_get (cache self) (cacheKey cid) = None \<Longrightarrow>
   net (url cid) = Resolves (Response True (Body t)) \<Longrightarrow>
     fetchChunk net self cid = (Inr t, addToCache self (cacheKey cid) t, [url cid])"
  by (simp add: fetchChunk_def)

lemma fetchChunk_miss_not_ok:
  "Map_get (cache self) (cacheKey cid) = None \<Longrightarrow>
   net (url cid) = Resolves (Response False b) \<Longrightarrow>
     fetchChunk net self cid =
       (Inl (Error (js ''Failed to fetch chunk '' @ Number_toString cid)), self, [url cid])"
  by (simp add: fetchChunk_def)

lemma fetchChunk_ok: "cache_ok (cache self) \<Longrightarrow> cache_ok (cache (fst (snd (fetchChunk net self cid))))"
  using fetchChunk_engine [of net self cid] by (auto simp: addToCache_ok)

lemma lookup_engine:
  "engine (lookup U net now onProgress key self) = self
   \<or> (\<exists>cid. getChunkId self (normalizeKey U key) = Inr cid
           \<and> engine (lookup U net now onProgress key self) = fst (snd (fetchChunk net self cid)))"
  by (auto simp: lookup_def lookup_try_def Let_def split: sum.splits prod.splits option.splits)

lemma lookup_ok: "cache_ok (cache self) \<Longrightarrow> cache_ok (cache (engine (lookup U net now onProgress key self)))"
  using lookup_engine [of U net now onProgress key self] by (auto simp: fetchChunk_ok)

lemma lookups_ok: "cache_ok (cache self) \<Longrightarrow> cache_ok (cache (lookups U calls self))"
  by (induction U calls self rule: lookups.induct) (simp_all add: lookup_ok)

lemma fetchChunks_append:
  "fetchChunks net self (xs @ [x]) = fst (snd (fetchChunk net (fetchChunks net self xs) x))"
  by (induction xs arbitrary: self) simp_all

lemma fetchChunks_fresh:
  assumes "cache self = []" and "distinct ids"
    and "\<forall>i \<in> set ids. net (url i) = Resolves (Response True (Body (t i)))"
  shows "cache (fetchChunks net self ids) =
     drop (length ids - 10) (map (\<lambda>i. (cacheKey i, t i)) ids)"
  using assms(2,3)
proof (induction ids rule: rev_induct)
  case Nil
  from assms(1) show ?case by simp
next
  case (snoc x xs)
  let ?f = "\<lambda>i. (cacheKey i, t i)"
  let ?s = "fetchChunks net self xs"
  let ?c = "cache ?s"
  from snoc have c: "?c = drop (length xs - 10) (map ?f xs)"
    by simp
  from snoc.prems have x: "x \<notin> set xs" "distinct xs" "net (url x) = Resolves (Response True (Body (t x)))"
    by simp_all
  have keys: "map fst ?c = drop (length xs - 10) (map cacheKey xs)"
    by (simp add: c drop_map comp_def)
  have "distinct (map cacheKey xs)"
    using x(2) by (simp add: distinct_map inj_on_def cacheKey_inj)
  then have dist: "distinct (map fst ?c)"
    by (simp add: keys)
  have "cacheKey x \<notin> set (map cacheKey xs)"
    using x(1) cacheKey_inj by auto
  then have "cacheKey x \<notin> set (map fst ?c)"
    unfolding keys using in_set_dropD by metis
  then have miss: "\<not> Map_has ?c (cacheKey x)" "Map_get ?c (cacheKey x) = None"
    by (simp_all add: Map_has_keys Map_get_keys)
  then have step: "fetchChunks net self (xs @ [x]) = addToCache ?s (cacheKey x) (t x)"
    using x(3) by (simp add: fetchChunks_append fetchChunk_miss_ok)
  show ?case
  proof (cases "length xs < 10")
    case True
    then have "Map_size ?c < 10"
      by (simp add: Map_size_def c)
    with miss have "cache (addToCache ?s (cacheKey x) (t x)) = ?c @ [?f x]"
      by (simp add: addToCache_room)
    with True step c show ?thesis by simp
  next
    case False
    then have "Map_size ?c = 10"
      by (simp add: Map_size_def c)
    with miss dist have "cache (addToCache ?s (cacheKey x) (t x)) = tl ?c @ [?f x]"
      by (simp add: addToCache_fifo)
    moreover have "tl (drop (length xs - 10) (map ?f xs)) = drop (Suc (length xs - 10)) (map ?f xs)"
      by (simp only: drop_Suc tl_drop)
    moreover from False have "Suc (length xs - 10) = Suc (length xs) - 10"
      by simp
    ultimately have "cache (addToCache ?s (cacheKey x) (t x)) =
        drop (Suc (length xs) - 10) (map ?f xs) @ [?f x]"
      by (simp only: c)
    moreover note step
    ultimately show ?thesis
      using False by simp
  qed
qed

lemma fetchChunks_evicts_first:
  assumes "cache self = []" and "distinct ids" and "length ids = 11"
    and "\<forall>i \<in> set ids. net (url i) = Resolves (Response True (Body (t i)))"
  shows "cache (fetchChunks net self ids) = map (\<lambda>i. (cacheKey i, t i)) (tl ids)"
    and "Map_get (cache (fetchChunks net self ids)) (cacheKey (hd ids)) = None"
proof -
  from assms(3) have "drop (length ids - 10) (map (\<lambda>i. (cacheKey i, t i)) ids) =
      map (\<lambda>i. (cacheKey i, t i)) (tl ids)"
    by (simp add: drop_Suc map_tl)
  with fetchChunks_fresh [OF assms(1,2,4)]
  show c: "cache (fetchChunks net self ids) = map (\<lambda>i. (cacheKey i, t i)) (tl ids)"
    by simp
  from assms(3) obtain x xs where ids: "ids = x # xs"
    by (cases ids) auto
  with assms(2) have "x \<notin> set xs" by simp
  then have "cacheKey x \<notin> cacheKey ` set xs"
    using cacheKey_inj by auto
  moreover have "fst ` set (cache (fetchChunks net self ids)) = cacheKey ` set xs"
    unfolding c by (simp add: ids image_comp comp_def)
  ultimately show "Map_get (cache (fetchChunks net self ids)) (cacheKey (hd ids)) = None"
    unfolding Map_get_keys by (simp add: ids)
qed

text \<open>
  Claim C3. The chunk cache holds at most 10 entries at all times, one entry per shard
  id: the invariant holds for a new engine, every \<open>addToCache\<close>, \<open>fetchChunk\<close> and
  run of lookups keeps it, and different shard ids have different cache keys. Inserting
  into a full cache evicts the entry inserted first and puts the new one last, so
  fetching 11 distinct shard ids into an empty cache evicts exactly the first and keeps
  the other 10 in their order. A read that hits the cache leaves the engine, and with
  it the eviction order, as it was, and requests nothing.
\<close>

theorem chunk_cache_fifo:
  "cache_ok (cache new_HashlyLookup)
   \<and> (cache_ok (cache self) \<longrightarrow>
        cache_ok (cache (addToCache self k v))
        \<and> cache_ok (cache (fst (snd (fetchChunk net self cid))))
        \<and> cache_ok (cache (lookups U calls self)))
   \<and> (cacheKey cid = cacheKey cid' \<longrightarrow> cid = cid')
   \<and> (Map_size (cache self) = 10 \<and> distinct (map fst (cache self)) \<and> \<not> Map_has (cache self) k \<longrightarrow>
        cache (addToCache self k v) = tl (cache self) @ [(k, v)])
   \<and> (cache self = [] \<and> distinct ids \<and> length ids = 11
        \<and> (\<forall>i \<in> set ids. net (url i) = Resolves (Response True (Body (t i)))) \<longrightarrow>
        cache (fetchChunks net self ids) = map (\<lambda>i. (cacheKey i, t i)) (tl ids)
        \<and> Map_get (cache (fetchChunks net self ids)) (cacheKey (hd ids)) = None)
   \<and> (Map_get (cache self) (cacheKey cid) = Some cached \<longrightarrow>
        fetchChunk net self cid = (Inr cached, self, []))"
proof -
  have "cache_ok (cache new_HashlyLookup)"
    by (simp add: new_HashlyLookup_def cache_ok_def Map_size_def)
  moreover have "cache_ok (cache self) \<longrightarrow>
        cache_ok (cache (addToCache self k v))
        \<and> cache_ok (cache (fst (snd (fetchChunk net self cid))))
        \<and> cache_ok (cache (lookups U calls self))"
    by (simp add: addToCache_ok fetchChunk_ok lookups_ok)
  moreover have "cacheKey cid = cacheKey cid' \<longrightarrow> cid = cid'"
    using cacheKey_inj by blast
  moreover have "Map_size (cache self) = 10 \<and> distinct (map fst (cache self)) \<and> \<not> Map_has (cache self) k \<longrightarrow>
        cache (addToCache self k v) = tl (cache self) @ [(k, v)]"
    using addToCache_fifo by blast
  moreover have "cache self = [] \<and> distinct ids \<and> length ids = 11
        \<and> (\<forall>i \<in> set ids. net (url i) = Resolves (Response True (Body (t i)))) \<longrightarrow>
        cache (fetchChunks net self ids) = map (\<lambda>i. (cacheKey i, t i)) (tl ids)
        \<and> Map_get (cache (fetchChunks net self ids)) (cacheKey (hd ids)) = None"
    using fetchChunks_evicts_first [of self ids net t] by blast
  moreover have "Map_get (cache self) (cacheKey cid) = Some cached \<longrightarrow>
        fetchChunk net self cid = (Inr cached, self, [])"
    using fetchChunk_hit by blast
  ultimately show ?thesis
    by (intro conjI)
qed

theorem chunk_cache_fifo_witness:
  "cache (fetchChunks echo_network sample_engine
       (map Num [1, 2, 3, 4, 5, 6, 7, 8, 9, 10, 11])) =
     map (\<lambda>i. (cacheKey i, url i)) (map Num [2, 3, 4, 5, 6, 7, 8, 9, 10, 11])
   \<and> Map_get (cache (fetchChunks echo_network sample_engine
       (map Num [1, 2, 3, 4, 5, 6, 7, 8, 9, 10, 11]))) (cacheKey (Num 1)) = None
   \<and> cache (addToCache
         \<lparr> meta = None, cache = map (\<lambda>c. ([c], [])) [0x30, 0x31, 0x32, 0x33, 0x34, 0x35, 0x36, 0x37, 0x38, 0x39] \<rparr>
         (js ''k'') (js ''v'')) =
       map (\<lambda>c. ([c], [])) [0x31, 0x32, 0x33, 0x34, 0x35, 0x36, 0x37, 0x38, 0x39] @ [(js ''k'', js ''v'')]
   \<and> cache_ok (cache (lookups plain_unicode
         [(echo_network, \<lambda>n. 0, False, js ''0123456789abcdef0123456789abcdef''),
          (echo_network, \<lambda>n. 0, True, js ''ffffffffffffffffffffffffffffffff'')] sample_engine))
   \<and> fetchChunk echo_network \<lparr> meta = None, cache = [(cacheKey (Num 3), js ''text'')] \<rparr> (Num 3) =
       (Inr (js ''text''), \<lparr> meta = None, cache = [(cacheKey (Num 3), js ''text'')] \<rparr>, [])"
proof -
  define ids where "ids = map Num [1, 2, 3, 4, 5, 6, 7, 8, 9, 10, 11]"
  define full where "full = \<lparr> meta = None, cache = map (\<lambda>c. ([c], [])) [0x30, 0x31, 0x32, 0x33, 0x34, 0x35, 0x36, 0x37, 0x38, 0x39 :: 16 word] \<rparr>"
  define hit where "hit = \<lparr> meta = None, cache = [(cacheKey (Num 3), js ''text'')] \<rparr>"
  define calls :: "call list" where "calls = [(echo_network, \<lambda>n. 0, False, js ''0123456789abcdef0123456789abcdef''),
          (echo_network, \<lambda>n. 0, True, js ''ffffffffffffffffffffffffffffffff'')]"
  have ok: "cache_ok (cache sample_engine)"
    by (simp add: sample_engine_def cache_ok_def Map_size_def)
  have ids: "cache sample_engine = [] \<and> distinct ids \<and> length ids = 11
      \<and> (\<forall>i \<in> set ids. echo_network (url i) = Resolves (Response True (Body (url i))))"
    by (simp add: sample_engine_def ids_def echo_network_def)
  have ids': "tl ids = map Num [2, 3, 4, 5, 6, 7, 8, 9, 10, 11]" "hd ids = Num 1"
    by (simp_all add: ids_def)
  have full: "Map_size (cache full) = 10 \<and> distinct (map fst (cache full)) \<and> \<not> Map_has (cache full) (js ''k'')"
    by (simp add: full_def Map_size_def Map_has_def js_def)
  have full': "tl (cache full) = map (\<lambda>c. ([c], [])) [0x31, 0x32, 0x33, 0x34, 0x35, 0x36, 0x37, 0x38, 0x39]"
    by (simp add: full_def)
  have hit: "Map_get (cache hit) (cacheKey (Num 3)) = Some (js ''text'')"
    by (simp add: hit_def Map_get_def)
  have "cache (fetchChunks echo_network sample_engine ids) = map (\<lambda>i. (cacheKey i, url i)) (tl ids)
    \<and> Map_get (cache (fetchChunks echo_network sample_engine ids)) (cacheKey (hd ids)) = None"
    using chunk_cache_fifo [of sample_engine _ _ echo_network _ _ _ _ ids url] ids
    by blast
  moreover have "cache (addToCache full (js ''k'') (js ''v'')) = tl (cache full) @ [(js ''k'', js ''v'')]"
    using chunk_cache_fifo [of full "js ''k''" "js ''v''"] full
    by blast
  moreover have "cache_ok (cache (lookups plain_unicode calls sample_engine))"
    using chunk_cache_fifo [of sample_engine _ _ _ _ plain_unicode calls] ok
    by blast
  moreover have "fetchChunk echo_network hit (Num 3) = (Inr (js ''text''), hit, [])"
    using chunk_cache_fifo [of hit _ _ echo_network "Num 3" _ _ _ _ _ "js ''text''"] hit
    by blast
  ultimately show ?thesis
    unfolding ids' full' unfolding ids_def full_def hit_def calls_def
    by blast
qed

section \<open>The paths through lookup\<close>

lemma lookup_invalid:
  assumes "\<not> validateKey U key"
  shows "lookup U net now onProgress key self =
     \<lparr> result = failure_result (js ''Invalid key format. Must be 32 hexadecimal characters.'')
                  (Math_round (now 1 - now 0)),
       engine = self, requests = [],
       progress = emit onProgress (js ''Validating key...'') \<rparr>"
  using assms by (simp add: lookup_def lookup_try_def failure_result_def)

lemma lookup_no_chunk:
  assumes "validateKey U key" and "getChunkId self (normalizeKey U key) = Inl e"
  shows "lookup U net now onProgress key self =
     \<lparr> result = failure_result (message e) (Math_round (now 1 - now 0)),
       engine = self, requests = [],
       progress = emit onProgress (js ''Validating key...'')
                  @ emit onProgress (js ''Calculating chunk ID...'') \<rparr>"
  using assms by (simp add: lookup_def lookup_try_def failure_result_def)

lemma lookup_fetch_failed:
  assumes "validateKey U key" and "getChunkId self (normalizeKey U key) = Inr cid"
    and "fetchChunk net self cid = (Inl e, self', reqs)"
  shows "lookup U net now onProgress key self =
     \<lparr> result = failure_result (message e) (Math_round (now 1 - now 0)),
       engine = self', requests = reqs,
       progress = emit onProgress (js ''Validating key...'')
                  @ emit onProgress (js ''Calculating chunk ID...'')
                  @ emit onProgress (js ''Loading chunk '' @ Number_toString cid @ js ''...'') \<rparr>"
  using assms by (simp add: lookup_def lookup_try_def failure_result_def)

lemma lookup_not_found:
  assumes "validateKey U key" and "getChunkId self (normalizeKey U key) = Inr cid"
    and "fetchChunk net self cid = (Inr chunkText, self', reqs)"
    and "scanChunk chunkText (normalizeKey U key) = None"
  shows "lookup U net now onProgress key self =
     \<lparr> result = failure_result (js ''Key not found in dataset'') (Math_round (now 2 - now 0)),
       engine = self', requests = reqs,
       progress = emit onProgress (js ''Validating key...'')
                  @ emit onProgress (js ''Calculating chunk ID...'')
                  @ emit onProgress (js ''Loading chunk '' @ Number_toString cid @ js ''...'')
                  @ emit onProgress (js ''Scanning for key...'') \<rparr>"
  using assms by (simp add: lookup_def lookup_try_def failure_result_def)

lemma lookup_found:
  assumes "validateKey U key" and "getChunkId self (normalizeKey U key) = Inr cid"
    and "fetchChunk net self cid = (Inr chunkText, self', reqs)"
    and "scanChunk chunkText (normalizeKey U key) = Some v"
  shows "lookup U net now onProgress key self =
     \<lparr> result = success_result v (Math_round (now 1 - now 0)) cid,
       engine = self', requests = reqs,
       progress = emit onProgress (js ''Validating key...'')
                  @ emit onProgress (js ''Calculating chunk ID...'')
                  @ emit onProgress (js ''Loading chunk '' @ Number_toString cid @ js ''...'')
                  @ emit onProgress (js ''Scanning for key...'') \<rparr>"
  using assms by (simp add: lookup_def lookup_try_def success_result_def)

lemma lookup_cases:
  obtains
    (invalid) "\<not> validateKey U key"
  | (no_chunk) e where "validateKey U key" "getChunkId self (normalizeKey U key) = Inl e"
  | (fetch_failed) cid e self' reqs where "validateKey U key"
      "getChunkId self (normalizeKey U key) = Inr cid"
      "fetchChunk net self cid = (Inl e, self', reqs)"
  | (not_found) cid chunkText self' reqs where "validateKey U key"
      "getChunkId self (normalizeKey U key) = Inr cid"
      "fetchChunk net self cid = (Inr chunkText, self', reqs)"
      "scanChunk chunkText (normalizeKey U key) = None"
  | (found) cid chunkText self' reqs v where "validateKey U key"
      "getChunkId self (normalizeKey U key) = Inr cid"
      "fetchChunk net self cid = (Inr chunkText, self', reqs)"
      "scanChunk chunkText (normalizeKey U key) = Some v"
proof (cases "validateKey U key")
  case False
  then show ?thesis by (rule invalid)
next
  case valid: True
  show ?thesis
  proof (cases "getChunkId self (normalizeKey U key)")
    case (Inl e)
    with valid show ?thesis by (rule no_chunk)
  next
    case (Inr cid)
    obtain r self' reqs where f: "fetchChunk net self cid = (r, self', reqs)"
      by (cases "fetchChunk net self cid") auto
    show ?thesis
    proof (cases r)
      case (Inl e)
      with valid Inr f show ?thesis by (auto intro: fetch_failed)
    next
      case chunk: (Inr chunkText)
      show ?thesis
      proof (cases "scanChunk chunkText (normalizeKey U key)")
        case None
        with valid Inr f chunk show ?thesis by (auto intro: not_found)
      next
        case (Some v)
        with valid Inr f chunk show ?thesis by (auto intro: found)
      qed
    qed
  qed
qed

section \<open>Case conversion and trimming of keys\<close>

lemma isHexChar_ascii: "isHexChar c \<Longrightarrow> c < 0x80"
  unfolding isHexChar_def by unat_arith

lemma upper_hex_plus:
  fixes c :: "16 word"
  assumes "0x41 \<le> c" and "c \<le> 0x46"
  shows "0x61 \<le> c + 0x20 \<and> c + 0x20 \<le> 0x66"
proof -
  from assms have c: "65 \<le> unat c" "unat c \<le> 70"
    by (simp_all add: word_le_nat_alt)
  then have "unat c + unat (0x20 :: 16 word) < 2 ^ LENGTH(16)"
    by simp
  then have "unat (c + 0x20) = unat c + unat (0x20 :: 16 word)"
    by (simp only: unat_add_lem)
  with c show ?thesis
    by (simp add: word_le_nat_alt)
qed

lemma isHexChar_lower: "isHexChar c \<Longrightarrow> isHexChar (ascii_lower c)"
proof -
  assume "isHexChar c"
  then consider "0x30 \<le> c" "c \<le> 0x39" | "0x61 \<le> c" "c \<le> 0x66" | "0x41 \<le> c" "c \<le> 0x46"
    unfolding isHexChar_def by blast
  then show ?thesis
  proof cases
    case 1
    then have "\<not> 0x41 \<le> c" by unat_arith
    with 1 show ?thesis by (simp add: ascii_lower_def isHexChar_def)
  next
    case 2
    then have "\<not> c \<le> 0x5A" by unat_arith
    with 2 show ?thesis by (simp add: ascii_lower_def isHexChar_def)
  next
    case 3
    then have "c \<le> 0x5A" by unat_arith
    with 3 upper_hex_plus [of c] show ?thesis by (simp add: ascii_lower_def isHexChar_def)
  qed
qed

lemma ascii_lower_idem: "ascii_lower (ascii_lower c) = ascii_lower c"
  unfolding ascii_lower_def
  apply (simp split: if_splits)
  apply unat_arith
  done

lemma ascii_lower_whitespace: "isWhiteSpace c \<Longrightarrow> ascii_lower c = c"
  unfolding isWhiteSpace_def ascii_lower_def
  by (elim disjE) (auto, unat_arith+)

lemma lower_units_ascii_prefix:
  "list_all (\<lambda>c. c < 0x80) s \<Longrightarrow>
     lower_units U before (s @ rest) = map ascii_lower s @ lower_units U (before @ s) rest"
  by (induction s arbitrary: before) simp_all

lemma lower_units_ascii:
  "list_all (\<lambda>c. c < 0x80) s \<Longrightarrow> lower_units U before s = map ascii_lower s"
  using lower_units_ascii_prefix [of s U before "[]"] by simp

lemma lower_units_whitespace_prefix:
  assumes "\<forall>before c after. isWhiteSpace c \<longrightarrow> lower_other U before c after = [c]"
    and "list_all isWhiteSpace ws"
  shows "lower_units U before (ws @ rest) = ws @ lower_units U (before @ ws) rest"
  using assms(2) by (induction ws arbitrary: before) (simp_all add: assms(1) ascii_lower_whitespace)

lemma lower_units_whitespace:
  assumes "\<forall>before c after. isWhiteSpace c \<longrightarrow> lower_other U before c after = [c]"
    and "list_all isWhiteSpace ws"
  shows "lower_units U before ws = ws"
  using lower_units_whitespace_prefix [OF assms, of before "[]"] by simp

lemma hex_all_ascii: "list_all isHexChar s \<Longrightarrow> list_all (\<lambda>c. c < 0x80) s"
  by (induction s) (simp_all add: isHexChar_ascii)

lemma toLowerCase_hex:
  "list_all isHexChar s \<Longrightarrow> String_toLowerCase U s = map ascii_lower s"
  by (simp add: String_toLowerCase_def lower_units_ascii hex_all_ascii)

lemma String_trim_padded:
  assumes "list_all isWhiteSpace ws1" and "list_all isWhiteSpace ws2"
    and "s = [] \<or> (\<not> isWhiteSpace (hd s) \<and> \<not> isWhiteSpace (last s))"
  shows "String_trim (ws1 @ s @ ws2) = s"
proof (cases "s = []")
  case True
  with assms(1,2) have "dropWhile isWhiteSpace (ws1 @ ws2) = []"
    by (simp only: dropWhile_eq_Nil_conv list_all_iff set_append) blast
  with True show ?thesis
    by (simp only: String_trim_def String_trimStart_def String_trimEnd_def append_Nil
        dropWhile.simps rev.simps)
next
  case False
  with assms(3) have ends: "\<not> isWhiteSpace (hd s)" "\<not> isWhiteSpace (last s)"
    by simp_all
  from False ends(1) have "dropWhile isWhiteSpace (s @ ws2) = s @ ws2"
    by (cases s) simp_all
  moreover have "dropWhile isWhiteSpace (ws1 @ s @ ws2) = dropWhile isWhiteSpace (s @ ws2)"
    by (rule dropWhile_append2) (use assms(1) in \<open>simp add: list_all_iff\<close>)
  ultimately have start: "dropWhile isWhiteSpace (ws1 @ s @ ws2) = s @ ws2"
    by simp
  from False ends(2) have "dropWhile isWhiteSpace (rev s) = rev s"
    by (cases s rule: rev_cases) simp_all
  moreover have "dropWhile isWhiteSpace (rev ws2 @ rev s) = dropWhile isWhiteSpace (rev s)"
    by (rule dropWhile_append2) (use assms(2) in \<open>simp add: list_all_iff\<close>)
  ultimately have "dropWhile isWhiteSpace (rev ws2 @ rev s) = rev s"
    by simp
  with start show ?thesis
    by (simp add: String_trim_def String_trimStart_def String_trimEnd_def)
qed

lemma hex_key_ends:
  assumes "list_all isHexChar s"
  shows "s = [] \<or> (\<not> isWhiteSpace (hd s) \<and> \<not> isWhiteSpace (last s))"
proof (cases "s = []")
  case True
  then show ?thesis by simp
next
  case False
  then have "hd s \<in> set s" "last s \<in> set s" by simp_all
  with assms have "isHexChar (hd s)" "isHexChar (last s)"
    by (simp_all add: list_all_iff)
  then show ?thesis
    using isWhiteSpace_not_hex by blast
qed

lemma String_trim_hex: "list_all isHexChar s \<Longrightarrow> String_trim s = s"
  using String_trim_padded [of "[]" "[]" s] hex_key_ends [of s] by simp

lemma lower_hex: "list_all isHexChar s \<Longrightarrow> list_all isHexChar (map ascii_lower s)"
  by (induction s) (simp_all add: isHexChar_lower)

lemma normalizeKey_hex:
  "list_all isHexChar s \<Longrightarrow> normalizeKey U s = map ascii_lower s"
  by (simp add: normalizeKey_def toLowerCase_hex String_trim_hex lower_hex)

lemma normalizeKey_padded:
  assumes "\<forall>before c after. isWhiteSpace c \<longrightarrow> lower_other U before c after = [c]"
    and "list_all isWhiteSpace ws1" and "list_all isWhiteSpace ws2" and "list_all isHexChar s"
  shows "normalizeKey U (ws1 @ s @ ws2) = map ascii_lower s"
proof -
  have "lower_units U [] (ws1 @ s @ ws2) = ws1 @ map ascii_lower s @ ws2"
    using assms
    by (simp add: lower_units_whitespace_prefix lower_units_ascii_prefix
        lower_units_whitespace hex_all_ascii)
  moreover have "String_trim (ws1 @ map ascii_lower s @ ws2) = map ascii_lower s"
    using assms(2,3) hex_key_ends [OF lower_hex [OF assms(4)]]
    by (rule String_trim_padded)
  ultimately show ?thesis
    by (simp add: normalizeKey_def String_toLowerCase_def)
qed

section \<open>The sample data\<close>

lemma sample_key_hex: "length sample_key = 32 \<and> list_all isHexChar sample_key"
  by (simp add: sample_key_def js_def isHexChar_def)

lemma sample_key_valid: "validateKey U sample_key"
  using sample_key_hex by (simp add: validateKey_iff)

lemma sample_key_normal: "normalizeKey U sample_key = sample_key"
proof -
  have "map ascii_lower sample_key = sample_key"
    by (simp add: sample_key_def js_def ascii_lower_def)
  with sample_key_hex show ?thesis
    by (simp add: normalizeKey_hex)
qed

lemma sample_chunk_id: "getChunkId sample_engine sample_key = Inr (Num 1646)"
  by (simp add: getChunkId_def sample_engine_def sample_key_def fnv_abc js_rem_def number_plus_def)

lemma sample_strings:
  "Number_toString (Num 1646) = js ''1646''"
  "cacheKey (Num 1646) = js ''chunk_1646''"
  "url (Num 1646) = js ''chunks/chunk_01646.txt''"
  by (simp_all add: url_def filename_def cacheKey_def Number_toString_def String_padStart_def
      js_def digits.simps)

lemma sample_scan: "scanChunk sample_chunk sample_key = Some (js ''v:1'')"
  by (simp add: scanChunk_def sample_chunk_def sample_key_def js_def String_trim_def
      String_trimStart_def String_trimEnd_def isWhiteSpace_def String_indexOf_def
      String_substring_def String_substring_from_def)

lemma sample_durations:
  "Math_round (sample_clock 1 - sample_clock 0) = 13"
  "Math_round (sample_clock 2 - sample_clock 0) = 20"
  by (simp_all add: Math_round_def sample_clock_def)

section \<open>Properties of lookup\<close>

text \<open>
  Claim C6. When the key is well-formed but the shard is not in the cache and its fetch
  gets a response that is not ok, \<open>lookup\<close> returns a failure whose error differs from
  the one for a key that is not found, and the engine, with its cache, is unchanged: no
  entry exists for the failed shard id.
\<close>

theorem lookup_shard_unavailable:
  assumes "validateKey U key"
    and "getChunkId self (normalizeKey U key) = Inr cid"
    and "Map_get (cache self) (cacheKey cid) = None"
    and "net (url cid) = Resolves (Response False b)"
  shows "result (lookup U net now onProgress key self) =
           failure_result (js ''Failed to fetch chunk '' @ Number_toString cid)
             (Math_round (now 1 - now 0))
         \<and> error (result (lookup U net now onProgress key self))
             \<noteq> Some (js ''Key not found in dataset'')
         \<and> engine (lookup U net now onProgress key self) = self
         \<and> requests (lookup U net now onProgress key self) = [url cid]
         \<and> \<not> Map_has (cache (engine (lookup U net now onProgress key self))) (cacheKey cid)"
proof -
  have "fetchChunk net self cid =
      (Inl (Error (js ''Failed to fetch chunk '' @ Number_toString cid)), self, [url cid])"
    using assms(3,4) by (rule fetchChunk_miss_not_ok)
  with assms(1,2) have "lookup U net now onProgress key self =
     \<lparr> result = failure_result (message (Error (js ''Failed to fetch chunk '' @ Number_toString cid)))
                  (Math_round (now 1 - now 0)),
       engine = self, requests = [url cid],
       progress = emit onProgress (js ''Validating key...'')
                  @ emit onProgress (js ''Calculating chunk ID...'')
                  @ emit onProgress (js ''Loading chunk '' @ Number_toString cid @ js ''...'') \<rparr>"
    by (rule lookup_fetch_failed)
  moreover have "js ''Failed to fetch chunk '' @ Number_toString cid \<noteq> js ''Key not found in dataset''"
    by (simp add: js_def)
  moreover from assms(3) have "\<not> Map_has (cache self) (cacheKey cid)"
    by (simp add: Map_has_def Map_get_def)
  ultimately show ?thesis
    by (simp add: failure_result_def)
qed

theorem lookup_shard_unavailable_witness:
  "result (lookup plain_unicode missing_network sample_clock True sample_key sample_engine) =
     failure_result (js ''Failed to fetch chunk 1646'') 13
   \<and> engine (lookup plain_unicode missing_network sample_clock True sample_key sample_engine) =
       sample_engine
   \<and> requests (lookup plain_unicode missing_network sample_clock True sample_key sample_engine) =
       [js ''chunks/chunk_01646.txt'']"
proof -
  have valid: "validateKey plain_unicode sample_key"
    by (rule sample_key_valid)
  have chunk: "getChunkId sample_engine (normalizeKey plain_unicode sample_key) = Inr (Num 1646)"
    by (simp add: sample_key_normal sample_chunk_id)
  have miss: "Map_get (cache sample_engine) (cacheKey (Num 1646)) = None"
    by (simp add: sample_engine_def Map_get_def)
  have net: "missing_network (url (Num 1646)) = Resolves (Response False (Body []))"
    by (simp add: missing_network_def)
  have msg: "js ''Failed to fetch chunk '' @ js ''1646'' = js ''Failed to fetch chunk 1646''"
    by (simp add: js_def)
  show ?thesis
    using lookup_shard_unavailable [of plain_unicode sample_key sample_engine "Num 1646"
        missing_network "Body []" sample_clock True, OF valid chunk miss net]
    unfolding sample_durations sample_strings msg
    by blast
qed




text \<open>
  Claim C10. \<open>lookup\<close> applies \<open>validateKey\<close> to the raw input, so a valid 32-character
  hexadecimal key with whitespace before or after it is rejected with the
  invalid-key-format failure before anything is hashed or fetched: the engine is
  unchanged, nothing is requested, and only the validation step is reported. Yet
  \<open>normalizeKey\<close> would strip that whitespace (given that the engine's lower-case
  table leaves whitespace as it is, as Unicode's does).
\<close>

theorem lookup_rejects_padded_key:
  assumes "validateKey U key"
    and "list_all isWhiteSpace ws1" and "list_all isWhiteSpace ws2" and "ws1 @ ws2 \<noteq> []"
  shows "\<not> validateKey U (ws1 @ key @ ws2)
     \<and> lookup U net now onProgress (ws1 @ key @ ws2) self =
         \<lparr> result = failure_result
                      (js ''Invalid key format. Must be 32 hexadecimal characters.'')
                      (Math_round (now 1 - now 0)),
           engine = self, requests = [],
           progress = emit onProgress (js ''Validating key...'') \<rparr>
     \<and> ((\<forall>before c after. isWhiteSpace c \<longrightarrow> lower_other U before c after = [c]) \<longrightarrow>
          normalizeKey U (ws1 @ key @ ws2) = normalizeKey U key)"
proof -
  from assms(1) have key: "length key = 32" "list_all isHexChar key"
    by (simp_all add: validateKey_iff)
  from assms(4) have "length (ws1 @ key @ ws2) \<noteq> 32"
    using key(1) by (cases ws1; cases ws2) simp_all
  then have invalid: "\<not> validateKey U (ws1 @ key @ ws2)"
    by (simp add: validateKey_iff)
  have "normalizeKey U (ws1 @ key @ ws2) = normalizeKey U key"
    if "\<forall>before c after. isWhiteSpace c \<longrightarrow> lower_other U before c after = [c]"
    using normalizeKey_padded [OF that assms(2,3) key(2)] key(2)
    by (simp add: normalizeKey_hex)
  with invalid lookup_invalid [OF invalid] show ?thesis
    by blast
qed

theorem lookup_rejects_padded_key_witness:
  "\<not> validateKey plain_unicode (js '' '' @ sample_key @ [0x0A, 0xA0])
   \<and> result (lookup plain_unicode sample_network sample_clock True
         (js '' '' @ sample_key @ [0x0A, 0xA0]) sample_engine) =
       failure_result (js ''Invalid key format. Must be 32 hexadecimal characters.'') 13
   \<and> requests (lookup plain_unicode sample_network sample_clock True
         (js '' '' @ sample_key @ [0x0A, 0xA0]) sample_engine) = []
   \<and> normalizeKey plain_unicode (js '' '' @ sample_key @ [0x0A, 0xA0]) = sample_key"
proof -
  have valid: "validateKey plain_unicode sample_key"
    by (rule sample_key_valid)
  have ws: "list_all isWhiteSpace (js '' '')" "list_all isWhiteSpace [0x0A, 0xA0]"
    "js '' '' @ [0x0A, 0xA0] \<noteq> []"
    by (simp_all add: js_def isWhiteSpace_def)
  have plain: "\<forall>before c after. isWhiteSpace c \<longrightarrow> lower_other plain_unicode before c after = [c]"
    by (simp add: plain_unicode_def)
  have "lookup plain_unicode sample_network sample_clock True
         (js '' '' @ sample_key @ [0x0A, 0xA0]) sample_engine =
         \<lparr> result = failure_result
                      (js ''Invalid key format. Must be 32 hexadecimal characters.'')
                      (Math_round (sample_clock 1 - sample_clock 0)),
           engine = sample_engine, requests = [],
           progress = emit True (js ''Validating key...'') \<rparr>"
    using lookup_rejects_padded_key [OF valid ws, of sample_network sample_clock True sample_engine]
    by blast
  then have "result (lookup plain_unicode sample_network sample_clock True
         (js '' '' @ sample_key @ [0x0A, 0xA0]) sample_engine) =
       failure_result (js ''Invalid key format. Must be 32 hexadecimal characters.'') 13
     \<and> requests (lookup plain_unicode sample_network sample_clock True
         (js '' '' @ sample_key @ [0x0A, 0xA0]) sample_engine) = []"
    by (simp only: outcome.simps sample_durations simp_thms)
  moreover have "\<not> validateKey plain_unicode (js '' '' @ sample_key @ [0x0A, 0xA0])
     \<and> normalizeKey plain_unicode (js '' '' @ sample_key @ [0x0A, 0xA0]) =
       normalizeKey plain_unicode sample_key"
    using lookup_rejects_padded_key [OF valid ws] plain
    by blast
  ultimately show ?thesis
    by (simp add: sample_key_normal)
qed

text \<open>
  Claim C9. For every raw key that \<open>validateKey\<close> accepts, \<open>lookup\<close> of the raw key and
  \<open>lookup\<close> of its lower-case form hash the same normalised key, target the same shard
  id and, from the same engine and with the same network and clock, produce the same
  outcome: the lookup is case-insensitive in its key.
\<close>

theorem lookup_case_insensitive:
  assumes "validateKey U raw"
  shows "validateKey U (String_toLowerCase U raw)
     \<and> normalizeKey U (String_toLowerCase U raw) = normalizeKey U raw
     \<and> fnv1a_32 (normalizeKey U (String_toLowerCase U raw)) = fnv1a_32 (normalizeKey U raw)
     \<and> getChunkId self (normalizeKey U (String_toLowerCase U raw)) =
         getChunkId self (normalizeKey U raw)
     \<and> lookup U net now onProgress (String_toLowerCase U raw) self =
         lookup U net now onProgress raw self"
proof -
  from assms have raw: "length raw = 32" "list_all isHexChar raw"
    by (simp_all add: validateKey_iff)
  then have lower: "String_toLowerCase U raw = map ascii_lower raw"
    by (simp add: toLowerCase_hex)
  from raw have valid: "validateKey U (map ascii_lower raw)"
    by (simp add: validateKey_iff lower_hex)
  from raw(2) have norm: "normalizeKey U (map ascii_lower raw) = normalizeKey U raw"
    by (simp add: normalizeKey_hex lower_hex ascii_lower_idem)
  from assms valid norm
  have "lookup U net now onProgress (map ascii_lower raw) self = lookup U net now onProgress raw self"
    by (simp add: lookup_def lookup_try_def)
  with valid norm show ?thesis
    by (simp add: lower)
qed

theorem lookup_case_insensitive_witness:
  "String_toLowerCase plain_unicode (js ''0123456789ABCDEF0123456789abcdef'') = sample_key
   \<and> lookup plain_unicode sample_network sample_clock True sample_key sample_engine =
       lookup plain_unicode sample_network sample_clock True
         (js ''0123456789ABCDEF0123456789abcdef'') sample_engine"
proof -
  have hex: "length (js ''0123456789ABCDEF0123456789abcdef'') = 32
      \<and> list_all isHexChar (js ''0123456789ABCDEF0123456789abcdef'')"
    by (simp add: js_def isHexChar_def)
  then have valid: "validateKey plain_unicode (js ''0123456789ABCDEF0123456789abcdef'')"
    by (simp add: validateKey_iff)
  have "map ascii_lower (js ''0123456789ABCDEF0123456789abcdef'') = sample_key"
    by (simp add: sample_key_def js_def ascii_lower_def)
  with hex have lower: "String_toLowerCase plain_unicode (js ''0123456789ABCDEF0123456789abcdef'') = sample_key"
    by (simp add: toLowerCase_hex)
  show ?thesis
    using lookup_case_insensitive [OF valid, of sample_engine sample_network sample_clock True]
    unfolding lower by simp
qed

section \<open>Cache entries across lookups\<close>

lemma fetchChunk_meta: "meta (fst (snd (fetchChunk net self cid))) = meta self"
  using fetchChunk_engine [of net self cid] by (auto simp: addToCache_meta)

lemma lookup_meta: "meta (engine (lookup U net now onProgress key self)) = meta self"
  using lookup_engine [of U net now onProgress key self] by (auto simp: fetchChunk_meta)

lemma lookups_meta: "meta (lookups U calls self) = meta self"
  by (induction U calls self rule: lookups.induct) (simp_all add: lookup_meta)

lemma getChunkId_meta: "meta s = meta s' \<Longrightarrow> getChunkId s k = getChunkId s' k"
  by (simp add: getChunkId_def)

lemma addToCache_entry: "Map_get (cache (addToCache self k v)) k = Some v"
  by (simp add: addToCache_def Let_def Map_get_Map_set)

lemma fetchChunk_entry_after:
  assumes "fetchChunk net self cid = (Inr t, s1, reqs)"
  shows "Map_get (cache s1) (cacheKey cid) = Some t"
proof (cases "Map_get (cache self) (cacheKey cid)")
  case (Some cached)
  with assms show ?thesis
    by (simp add: fetchChunk_hit)
next
  case None
  with assms show ?thesis
    by (auto simp: fetchChunk_def addToCache_entry
        split: fetch_result.splits if_splits body.splits)
qed

lemma addToCache_keeps:
  assumes "Map_get (cache self) k = Some t" and "k' \<noteq> k"
    and "Map_has (cache (addToCache self k' v)) k"
  shows "Map_get (cache (addToCache self k' v)) k = Some t"
proof -
  from assms(3) have "Map_get (cache (addToCache self k' v)) k \<noteq> None"
    by (simp add: Map_has_def Map_get_def)
  with assms(1,2) show ?thesis
    by (auto simp: addToCache_def Let_def Map_get_Map_set Map_get_Map_delete
        split: if_splits option.splits)
qed

lemma fetchChunk_keeps:
  assumes "Map_get (cache self) k = Some t"
    and "Map_has (cache (fst (snd (fetchChunk net self cid)))) k"
  shows "Map_get (cache (fst (snd (fetchChunk net self cid)))) k = Some t"
proof -
  consider "fst (snd (fetchChunk net self cid)) = self"
    | t' where "Map_get (cache self) (cacheKey cid) = None"
        "fetchChunk net self cid = (Inr t', addToCache self (cacheKey cid) t', [url cid])"
    using fetchChunk_engine [of net self cid] by blast
  then show ?thesis
  proof cases
    case 1
    with assms(1) show ?thesis by simp
  next
    case 2
    with assms(1) have "cacheKey cid \<noteq> k" by auto
    with assms 2 show ?thesis
      by (simp add: addToCache_keeps)
  qed
qed

lemma lookup_keeps:
  assumes "Map_get (cache self) k = Some t"
    and "Map_has (cache (engine (lookup U net now onProgress key self))) k"
  shows "Map_get (cache (engine (lookup U net now onProgress key self))) k = Some t"
  using lookup_engine [of U net now onProgress key self] assms
  by (auto simp: fetchChunk_keeps)

lemma lookups_keeps:
  assumes "Map_get (cache self) k = Some t"
    and "\<forall>n \<le> length calls. Map_has (cache (lookups U (take n calls) self)) k"
  shows "Map_get (cache (lookups U calls self)) k = Some t"
  using assms
proof (induction U calls self rule: lookups.induct)
  case (1 U self)
  then show ?case by simp
next
  case (2 U net now onProgress key calls self)
  let ?s = "engine (lookup U net now onProgress key self)"
  have "Map_has (cache (lookups U (take 1 ((net, now, onProgress, key) # calls)) self)) k"
    using "2.prems"(2) by (simp del: take_Suc_Cons lookups.simps)
  then have "Map_has (cache ?s) k"
    by simp
  with "2.prems"(1) have entry: "Map_get (cache ?s) k = Some t"
    by (rule lookup_keeps)
  have "\<forall>n \<le> length calls. Map_has (cache (lookups U (take n calls) ?s)) k"
  proof (intro allI impI)
    fix n
    assume "n \<le> length calls"
    then have "Suc n \<le> length ((net, now, onProgress, key) # calls)" by simp
    with "2.prems"(2)
    have "Map_has (cache (lookups U (take (Suc n) ((net, now, onProgress, key) # calls)) self)) k"
      by blast
    then show "Map_has (cache (lookups U (take n calls) ?s)) k"
      by simp
  qed
  with entry have "Map_get (cache (lookups U calls ?s)) k = Some t"
    by (rule "2.IH")
  then show ?case by simp
qed

lemma lookup_success_found:
  assumes "success (result (lookup U net now onProgress key self))"
  obtains cid chunkText reqs v where "validateKey U key"
    "getChunkId self (normalizeKey U key) = Inr cid"
    "fetchChunk net self cid = (Inr chunkText, engine (lookup U net now onProgress key self), reqs)"
    "scanChunk chunkText (normalizeKey U key) = Some v"
    "result (lookup U net now onProgress key self) =
       success_result v (Math_round (now 1 - now 0)) cid"
proof (cases rule: lookup_cases [where U = U and key = key and self = self and net = net])
  case invalid
  with assms show ?thesis
    by (simp add: lookup_invalid failure_result_def)
next
  case (no_chunk e)
  with assms show ?thesis
    by (simp add: lookup_no_chunk failure_result_def)
next
  case (fetch_failed cid e self' reqs)
  with assms show ?thesis
    by (simp add: lookup_fetch_failed failure_result_def)
next
  case (not_found cid chunkText self' reqs)
  with assms show ?thesis
    by (simp add: lookup_not_found failure_result_def)
next
  case (found cid chunkText self' reqs v)
  then show ?thesis
    by (intro that [of cid chunkText reqs v]) (simp_all add: lookup_found)
qed

text \<open>
  Claim C8. When a lookup succeeds and the same key is looked up again, after any
  other lookups during which the shard's cache entry was never evicted, the second
  lookup succeeds with the same value and the same shard id, whatever the network does
  by then: it hits the cache, requests nothing and leaves the engine as it was.
\<close>

theorem repeated_lookup_hits_cache:
  assumes "success (result (lookup U net now onProgress key self))"
    and "chunkId (result (lookup U net now onProgress key self)) = Some cid"
    and "\<forall>n \<le> length calls.
           Map_has (cache (lookups U (take n calls)
             (engine (lookup U net now onProgress key self)))) (cacheKey cid)"
  shows "(let first = lookup U net now onProgress key self;
              s2 = lookups U calls (engine first);
              second = lookup U net' now' onProgress' key s2
          in success (result second)
             \<and> value' (result second) = value' (result first)
             \<and> chunkId (result second) = chunkId (result first)
             \<and> requests second = []
             \<and> engine second = s2)"
proof -
  let ?s1 = "engine (lookup U net now onProgress key self)"
  let ?s2 = "lookups U calls ?s1"
  from assms(1) obtain cid' chunkText reqs v where first:
    "validateKey U key"
    "getChunkId self (normalizeKey U key) = Inr cid'"
    "fetchChunk net self cid' = (Inr chunkText, ?s1, reqs)"
    "scanChunk chunkText (normalizeKey U key) = Some v"
    "result (lookup U net now onProgress key self) =
       success_result v (Math_round (now 1 - now 0)) cid'"
    by (rule lookup_success_found)
  from first(5) assms(2) have cid: "cid' = cid"
    by (simp add: success_result_def)
  from first(3) have "Map_get (cache ?s1) (cacheKey cid) = Some chunkText"
    unfolding cid by (rule fetchChunk_entry_after)
  then have "Map_get (cache ?s2) (cacheKey cid) = Some chunkText"
    using assms(3) by (rule lookups_keeps)
  then have hit: "fetchChunk net' ?s2 cid = (Inr chunkText, ?s2, [])"
    by (rule fetchChunk_hit)
  have "meta ?s2 = meta self"
    by (simp add: lookups_meta lookup_meta)
  with first(2) have chunk: "getChunkId ?s2 (normalizeKey U key) = Inr cid"
    unfolding cid by (simp add: getChunkId_meta [of ?s2 self])
  have "lookup U net' now' onProgress' key ?s2 =
     \<lparr> result = success_result v (Math_round (now' 1 - now' 0)) cid,
       engine = ?s2, requests = [],
       progress = emit onProgress' (js ''Validating key...'')
                  @ emit onProgress' (js ''Calculating chunk ID...'')
                  @ emit onProgress' (js ''Loading chunk '' @ Number_toString cid @ js ''...'')
                  @ emit onProgress' (js ''Scanning for key...'') \<rparr>"
    using first(1) chunk hit first(4) by (rule lookup_found)
  with first(5) show ?thesis
    by (simp add: Let_def success_result_def cid)
qed

lemma lookup_engine_valid:
  assumes "validateKey U key" and "getChunkId self (normalizeKey U key) = Inr cid"
  shows "engine (lookup U net now onProgress key self) = fst (snd (fetchChunk net self cid))"
  using assms
  by (auto simp: lookup_def lookup_try_def Let_def split: sum.splits prod.splits option.splits)

lemma other_key: "length (js ''ffffffffffffffffffffffffffffffff'') = 32
    \<and> list_all isHexChar (js ''ffffffffffffffffffffffffffffffff'')
    \<and> map ascii_lower (js ''ffffffffffffffffffffffffffffffff'') = js ''ffffffffffffffffffffffffffffffff''"
  by (simp add: js_def isHexChar_def ascii_lower_def)

lemma fnv_fff: "fnv1a_32 (js ''ffffffffffffffffffffffffffffffff'') = 3985802821"
  by (simp add: fnv1a_32_def js_def Math_imul_def js_xor_def ToInt32_def ToUint32_def)

lemma other_strings:
  "cacheKey (Num 1002) = js ''chunk_1002''"
  "js ''chunk_1002'' \<noteq> js ''chunk_1646''"
  by (simp_all add: cacheKey_def Number_toString_def js_def digits.simps)

theorem repeated_lookup_hits_cache_witness:
  "value' (result (lookup plain_unicode missing_network sample_clock False sample_key
      (lookups plain_unicode
        [(echo_network, sample_clock, False, js ''ffffffffffffffffffffffffffffffff'')]
        (engine (lookup plain_unicode sample_network sample_clock True sample_key sample_engine)))))
     = Some (js ''v:1'')
   \<and> requests (lookup plain_unicode missing_network sample_clock False sample_key
      (lookups plain_unicode
        [(echo_network, sample_clock, False, js ''ffffffffffffffffffffffffffffffff'')]
        (engine (lookup plain_unicode sample_network sample_clock True sample_key sample_engine))))
     = []"
proof -
  define first where
    "first = lookup plain_unicode sample_network sample_clock True sample_key sample_engine"
  define calls :: "call list" where
    "calls = [(echo_network, sample_clock, False, js ''ffffffffffffffffffffffffffffffff'')]"
  define s1 where "s1 = addToCache sample_engine (cacheKey (Num 1646)) sample_chunk"
  have valid: "validateKey plain_unicode sample_key"
    by (rule sample_key_valid)
  have chunk: "getChunkId sample_engine (normalizeKey plain_unicode sample_key) = Inr (Num 1646)"
    by (simp add: sample_key_normal sample_chunk_id)
  have fetch: "fetchChunk sample_network sample_engine (Num 1646) =
      (Inr sample_chunk, s1, [url (Num 1646)])"
    unfolding s1_def
    by (rule fetchChunk_miss_ok)
      (simp_all add: sample_engine_def Map_get_def sample_network_def sample_strings)
  have scan: "scanChunk sample_chunk (normalizeKey plain_unicode sample_key) = Some (js ''v:1'')"
    by (simp add: sample_key_normal sample_scan)
  have first: "result first = success_result (js ''v:1'') (Math_round (sample_clock 1 - sample_clock 0)) (Num 1646)"
    "engine first = s1"
    unfolding first_def by (simp_all only: lookup_found [OF valid chunk fetch scan] outcome.simps)
  have ok: "success (result first)" "chunkId (result first) = Some (Num 1646)"
    "value' (result first) = Some (js ''v:1'')"
    by (simp_all add: first(1) success_result_def)
  have c1: "cache s1 = [(js ''chunk_1646'', sample_chunk)]"
    by (simp add: s1_def addToCache_def sample_engine_def Map_size_def maxCacheSize_def
        sample_strings)
  have m1: "meta s1 = meta sample_engine"
    by (simp add: s1_def addToCache_meta)
  have valid2: "validateKey plain_unicode (js ''ffffffffffffffffffffffffffffffff'')"
    using other_key by (simp add: validateKey_iff)
  have "normalizeKey plain_unicode (js ''ffffffffffffffffffffffffffffffff'') =
      js ''ffffffffffffffffffffffffffffffff''"
    using other_key by (simp add: normalizeKey_hex)
  moreover have "getChunkId s1 (js ''ffffffffffffffffffffffffffffffff'') = Inr (Num 1002)"
    by (simp add: getChunkId_def m1 sample_engine_def fnv_fff js_rem_def number_plus_def)
  ultimately have chunk2: "getChunkId s1 (normalizeKey plain_unicode (js ''ffffffffffffffffffffffffffffffff'')) = Inr (Num 1002)"
    by simp
  have "fetchChunk echo_network s1 (Num 1002) =
      (Inr (url (Num 1002)), addToCache s1 (cacheKey (Num 1002)) (url (Num 1002)), [url (Num 1002)])"
    by (rule fetchChunk_miss_ok) (simp_all add: c1 Map_get_def other_strings echo_network_def)
  with lookup_engine_valid [OF valid2 chunk2, of echo_network sample_clock False]
  have "engine (lookup plain_unicode echo_network sample_clock False
      (js ''ffffffffffffffffffffffffffffffff'') s1) = addToCache s1 (cacheKey (Num 1002)) (url (Num 1002))"
    by simp
  then have s2: "lookups plain_unicode calls s1 = addToCache s1 (cacheKey (Num 1002)) (url (Num 1002))"
    by (simp add: calls_def)
  have "cache (addToCache s1 (cacheKey (Num 1002)) (url (Num 1002))) =
      [(js ''chunk_1646'', sample_chunk), (js ''chunk_1002'', url (Num 1002))]"
    using other_strings(2)
    by (simp add: addToCache_def c1 Map_size_def maxCacheSize_def other_strings(1))
  then have has2: "Map_has (cache (lookups plain_unicode calls s1)) (cacheKey (Num 1646))"
    by (simp add: s2 Map_has_def sample_strings)
  have has1: "Map_has (cache s1) (cacheKey (Num 1646))"
    by (simp add: c1 Map_has_def sample_strings)
  have between: "\<forall>n \<le> length calls.
      Map_has (cache (lookups plain_unicode (take n calls) (engine first))) (cacheKey (Num 1646))"
  proof (intro allI impI)
    fix n
    assume "n \<le> length calls"
    then consider "n = 0" | "n = 1"
      by (auto simp: calls_def le_Suc_eq)
    then show "Map_has (cache (lookups plain_unicode (take n calls) (engine first))) (cacheKey (Num 1646))"
    proof cases
      case 1
      with has1 show ?thesis by (simp add: first(2))
    next
      case 2
      then have "take n calls = calls" by (simp add: calls_def)
      with has2 show ?thesis by (simp add: first(2))
    qed
  qed
  have "(let f = lookup plain_unicode sample_network sample_clock True sample_key sample_engine;
              s2 = lookups plain_unicode calls (engine f);
              second = lookup plain_unicode missing_network sample_clock False sample_key s2
          in success (result second)
             \<and> value' (result second) = value' (result f)
             \<and> chunkId (result second) = chunkId (result f)
             \<and> requests second = []
             \<and> engine second = s2)"
    using ok(1,2) between unfolding first_def
    by (rule repeated_lookup_hits_cache)
  then have "value' (result (lookup plain_unicode missing_network sample_clock False sample_key
        (lookups plain_unicode calls (engine first)))) = value' (result first)
    \<and> requests (lookup plain_unicode missing_network sample_clock False sample_key
        (lookups plain_unicode calls (engine first))) = []"
    unfolding first_def Let_def by blast
  then show ?thesis
    unfolding ok(3) unfolding first_def calls_def by blast
qed

end
